theory Spec2Isabelle
  imports Main "HOL-Library.Monad_Syntax" "HOL-Library.Sublist"
begin

section \<open>Two-phase delivery labels (internal/mail/delivery.go)\<close>

subsection \<open>Constants\<close>

definition DeliveryStatePending :: string where
  "DeliveryStatePending = ''pending''"

definition DeliveryStateAcked :: string where
  "DeliveryStateAcked = ''acked''"

definition DeliveryLabelPending :: string where
  "DeliveryLabelPending = ''delivery:pending''"

definition DeliveryLabelAcked :: string where
  "DeliveryLabelAcked = ''delivery:acked''"

definition DeliveryLabelAckedByPrefix :: string where
  "DeliveryLabelAckedByPrefix = ''delivery-acked-by:''"

definition DeliveryLabelAckedAtPrefix :: string where
  "DeliveryLabelAckedAtPrefix = ''delivery-acked-at:''"

subsection \<open>The two functions of package strings that the scan calls\<close>

text \<open>
  \<^verbatim>\<open>strings.HasPrefix(s, prefix)\<close> is \<^verbatim>\<open>len(s) >= len(prefix) && s[:len(prefix)] == prefix\<close>,
  and \<^verbatim>\<open>strings.TrimPrefix(s, prefix)\<close> returns \<^verbatim>\<open>s[len(prefix):]\<close> when that holds and
  \<^verbatim>\<open>s\<close> otherwise. A Go string is a sequence of bytes, as a HOL \<open>string\<close> is.
\<close>

definition HasPrefix :: "string \<Rightarrow> string \<Rightarrow> bool" where
  "HasPrefix s p = (length p \<le> length s \<and> take (length p) s = p)"

definition TrimPrefix :: "string \<Rightarrow> string \<Rightarrow> string" where
  "TrimPrefix s p = (if HasPrefix s p then drop (length p) s else s)"

subsection \<open>The part of package time that the code calls\<close>

text \<open>
  The code calls \<^verbatim>\<open>at.UTC().Format(time.RFC3339)\<close> and \<^verbatim>\<open>time.Parse(time.RFC3339, ts)\<close>
  of Go's standard library. The library is not part of the repository; what follows
  is a model of these calls for the one layout \<^verbatim>\<open>"2006-01-02T15:04:05Z07:00"\<close>, written
  after the library's functions of the same names. For parsing it follows the
  library's general layout-driven parser, specialised to this layout; recent versions
  of the library try a stricter RFC 3339 parser first and fall back to the general
  one when it refuses, which gives the same results. The calendar arithmetic follows
  the cycle-counting functions \<^verbatim>\<open>daysSinceEpoch\<close> and \<^verbatim>\<open>absDate\<close>.

  A \<^verbatim>\<open>time.Time\<close> is an instant with a location. The model keeps the instant as
  seconds since 1970-01-01T00:00:00Z plus nanoseconds within the second
  (\<open>0 \<le> nanos < 10\<^sup>9\<close>), and of the location only its offset from UTC in seconds at that
  instant, which is all that formatting reads. The bounds of the library's 64-bit
  second counter are not modelled: the integers are unbounded.
\<close>

record Time =
  unixSec :: int
  nanos :: int
  locOffset :: int

definition UTC :: "Time \<Rightarrow> Time" where
  "UTC t = t\<lparr>locOffset := 0\<rparr>"

definition secondsPerDay :: int where
  "secondsPerDay = 86400"

text \<open>Seconds from 0001-01-01T00:00:00Z to the Unix epoch.\<close>

definition unixToInternal :: int where
  "unixToInternal = 62135596800"

definition daysPer400Years :: int where
  "daysPer400Years = 146097"

definition daysPer100Years :: int where
  "daysPer100Years = 36524"

definition daysPer4Years :: int where
  "daysPer4Years = 1461"

definition daysBefore :: "int list" where
  "daysBefore = [0, 31, 59, 90, 120, 151, 181, 212, 243, 273, 304, 334, 365]"

definition isLeap :: "int \<Rightarrow> bool" where
  "isLeap year = (year mod 4 = 0 \<and> (year mod 100 \<noteq> 0 \<or> year mod 400 = 0))"

text \<open>\<open>daysIn\<close> is only called with a month between 1 and 12.\<close>

definition daysIn :: "int \<Rightarrow> int \<Rightarrow> int" where
  "daysIn m year =
     (if m = 2 \<and> isLeap year then 29
      else daysBefore ! nat m - daysBefore ! nat (m - 1))"

text \<open>
  Days from 0001-01-01 to January 1 of \<open>year\<close>. The library counts from an epoch a
  whole number of 400-year cycles before year 1 so that its unsigned arithmetic never
  goes negative; with the flooring \<open>div\<close> of HOL the count from year 1 is the same
  computation.
\<close>

definition daysSinceEpoch :: "int \<Rightarrow> int" where
  "daysSinceEpoch year =
     (let y = year - 1;
          n = y div 400; y = y - 400 * n; d = daysPer400Years * n;
          n = y div 100; y = y - 100 * n; d = d + daysPer100Years * n;
          n = y div 4; y = y - 4 * n; d = d + daysPer4Years * n;
          n = y; d = d + 365 * n
      in d)"

text \<open>\<open>norm hi lo base\<close> carries \<open>lo\<close> into \<open>hi\<close> so that \<open>0 \<le> lo < base\<close>.\<close>

definition norm :: "int \<Rightarrow> int \<Rightarrow> int \<Rightarrow> int \<times> int" where
  "norm hi lo base =
     (let (hi, lo) = (if lo < 0 then
                        (let n = (- lo - 1) div base + 1 in (hi - n, lo + n * base))
                      else (hi, lo));
          (hi, lo) = (if lo \<ge> base then
                        (let n = lo div base in (hi + n, lo - n * base))
                      else (hi, lo))
      in (hi, lo))"

text \<open>\<^verbatim>\<open>time.Date(year, month, day, hour, min, sec, nsec, time.UTC)\<close>.\<close>

definition Date :: "int \<Rightarrow> int \<Rightarrow> int \<Rightarrow> int \<Rightarrow> int \<Rightarrow> int \<Rightarrow> int \<Rightarrow> Time" where
  "Date year month day hour minute sec nsec =
     (let m = month - 1;
          (year, m) = norm year m 12;
          month = m + 1;
          (sec, nsec) = norm sec nsec 1000000000;
          (minute, sec) = norm minute sec 60;
          (hour, minute) = norm hour minute 60;
          (day, hour) = norm day hour 24;
          d = daysSinceEpoch year;
          d = d + daysBefore ! nat (month - 1);
          d = (if isLeap year \<and> month \<ge> 3 then d + 1 else d);
          d = d + (day - 1);
          abs_sec = d * secondsPerDay;
          abs_sec = abs_sec + (hour * 3600 + minute * 60 + sec)
      in \<lparr>unixSec = abs_sec - unixToInternal, nanos = nsec, locOffset = 0\<rparr>)"

text \<open>
  The library's \<open>absDate\<close> finds the calendar date of the day that lies \<open>d\<close> days
  after 0001-01-01. Its first half, which is all it runs when only the year is asked
  for, cuts off whole 400-, 100-, 4- and 1-year cycles in turn (\<open>n div 4\<close> is the
  shift \<^verbatim>\<open>n >> 2\<close>) and returns the year and the zero-based day of the year.
\<close>

definition absYear :: "int \<Rightarrow> int \<times> int" where
  "absYear d =
     (let n = d div daysPer400Years; y = 400 * n; d = d - daysPer400Years * n;
          n = d div daysPer100Years; n = n - n div 4; y = y + 100 * n; d = d - daysPer100Years * n;
          n = d div daysPer4Years; y = y + 4 * n; d = d - daysPer4Years * n;
          n = d div 365; n = n - n div 4; y = y + n; d = d - 365 * n
      in (y + 1, d))"

text \<open>
  The second half turns the day of the year into month and day of the month: the
  leap day is set aside, the month is estimated as \<open>day div 31\<close> and adjusted by at
  most one.
\<close>

definition absDate :: "int \<Rightarrow> int \<times> int \<times> int" where
  "absDate d =
     (let (year, yday) = absYear d;
          day = yday
      in if isLeap year \<and> day = 31 + 29 - 1 then (year, 2, 29)
         else
           (let day = (if isLeap year \<and> day > 31 + 29 - 1 then day - 1 else day);
                month = day div 31;
                end_day = daysBefore ! nat (month + 1);
                (month, begin_day) = (if day \<ge> end_day then (month + 1, end_day)
                                      else (month, daysBefore ! nat month));
                month = month + 1;
                day = day - begin_day + 1
            in (year, month, day)))"

text \<open>\<^verbatim>\<open>t.Year()\<close>: the year in the time's own location.\<close>

definition Year :: "Time \<Rightarrow> int" where
  "Year t = fst (absDate ((unixSec t + locOffset t + unixToInternal) div secondsPerDay))"

text \<open>
  \<open>appendInt b x width\<close> appends the decimal form of \<open>x\<close> to \<open>b\<close>: a minus sign when
  \<open>x\<close> is negative, then the digits of \<open>\<bar>x\<bar>\<close>, padded with zeros on the left up to
  \<open>width\<close>. A number with more digits than \<open>width\<close> is written in full.
\<close>

fun digits :: "nat \<Rightarrow> string" where
  "digits u = (if u < 10 then [char_of (48 + u)]
               else digits (u div 10) @ [char_of (48 + u mod 10)])"

declare digits.simps [simp del]

definition appendInt :: "string \<Rightarrow> int \<Rightarrow> nat \<Rightarrow> string" where
  "appendInt b x width =
     (let b = (if x < 0 then b @ ''-'' else b);
          ds = digits (nat \<bar>x\<bar>)
      in b @ replicate (width - length ds) (CHR ''0'') @ ds)"

text \<open>
  \<^verbatim>\<open>t.Format(time.RFC3339)\<close>: date, \<^verbatim>\<open>T\<close>, clock, then \<^verbatim>\<open>Z\<close> when the offset is zero
  and \<^verbatim>\<open>+hh:mm\<close> or \<^verbatim>\<open>-hh:mm\<close> otherwise. Nanoseconds are not printed. Go's integer
  division truncates towards zero, which is written out for the negative offset.
\<close>

definition Format_RFC3339 :: "Time \<Rightarrow> string" where
  "Format_RFC3339 t =
     (let offset = locOffset t;
          abs_sec = unixSec t + offset + unixToInternal;
          (year, month, day) = absDate (abs_sec div secondsPerDay);
          b = appendInt [] year 4;
          b = b @ ''-'';
          b = appendInt b month 2;
          b = b @ ''-'';
          b = appendInt b day 2;
          b = b @ ''T'';
          sec = abs_sec mod secondsPerDay;
          hour = sec div 3600;
          sec = sec - hour * 3600;
          minute = sec div 60;
          sec = sec - minute * 60;
          b = appendInt b hour 2;
          b = b @ '':'';
          b = appendInt b minute 2;
          b = b @ '':'';
          b = appendInt b sec 2
      in if offset = 0 then b @ ''Z''
         else
           (let zone = (if offset < 0 then - ((- offset) div 60) else offset div 60);
                (b, zone) = (if zone < 0 then (b @ ''-'', - zone) else (b @ ''+'', zone));
                b = appendInt b (zone div 60) 2;
                b = b @ '':'';
                b = appendInt b (zone mod 60) 2
            in b))"

text \<open>The helpers of the parser. \<open>isDigit s i\<close> is false when \<open>i\<close> is out of range.\<close>

definition isDigit :: "string \<Rightarrow> nat \<Rightarrow> bool" where
  "isDigit s i = (if length s \<le> i then False
                  else (let c = s ! i in (48::nat) \<le> of_char c \<and> of_char c \<le> (57::nat)))"

definition digitVal :: "char \<Rightarrow> int" where
  "digitVal c = of_char c - 48"

text \<open>
  \<open>getnum s fixed\<close> reads one or two leading digits; with \<open>fixed\<close> it insists on two.
\<close>

definition getnum :: "string \<Rightarrow> bool \<Rightarrow> (int \<times> string) option" where
  "getnum s fixed =
     (if \<not> isDigit s 0 then None
      else if \<not> isDigit s 1 then
        (if fixed then None else Some (digitVal (s ! 0), drop 1 s))
      else Some (digitVal (s ! 0) * 10 + digitVal (s ! 1), drop 2 s))"

text \<open>
  \<open>leadingInt\<close> consumes the leading digits and fails when the number leaves the
  63-bit range; \<open>atoi\<close> accepts an optional sign and wants nothing after the digits.
\<close>

fun leadingInt :: "int \<Rightarrow> string \<Rightarrow> (int \<times> string) option" where
  "leadingInt x [] = Some (x, [])"
| "leadingInt x (c # s) =
     (if \<not> isDigit (c # s) 0 then Some (x, c # s)
      else if x > 2 ^ 63 div 10 then None
      else (let x = x * 10 + digitVal c in
            if x > 2 ^ 63 then None else leadingInt x s))"

definition atoi :: "string \<Rightarrow> int option" where
  "atoi s =
     (let neg = (s \<noteq> [] \<and> s ! 0 = CHR ''-'');
          s = (if s \<noteq> [] \<and> (s ! 0 = CHR ''-'' \<or> s ! 0 = CHR ''+'') then drop 1 s else s)
      in case leadingInt 0 s of
           None \<Rightarrow> None
         | Some (q, rem) \<Rightarrow> if rem \<noteq> [] then None else Some (if neg then - q else q))"

text \<open>
  \<open>skip v c\<close> is the library's \<^verbatim>\<open>skip(value, prefix)\<close> for a prefix of the single byte
  \<open>c\<close>, not a space: the literal bytes \<^verbatim>\<open>-\<close>, \<^verbatim>\<open>T\<close> and \<^verbatim>\<open>:\<close> of the layout.
\<close>

definition skip :: "string \<Rightarrow> char \<Rightarrow> string option" where
  "skip v c = (if v = [] \<or> v ! 0 \<noteq> c then None else Some (drop 1 v))"

definition commaOrPeriod :: "char \<Rightarrow> bool" where
  "commaOrPeriod c = (c = CHR ''.'' \<or> c = CHR '','')"

text \<open>
  \<open>parseNanoseconds v nbytes\<close> reads a fraction of a second from the first \<open>nbytes\<close>
  bytes of \<open>v\<close> (separator and digits), keeping at most nine digits.
\<close>

definition parseNanoseconds :: "string \<Rightarrow> nat \<Rightarrow> int option" where
  "parseNanoseconds v nbytes =
     (if \<not> commaOrPeriod (v ! 0) then None
      else
        (let (v, nbytes) = (if nbytes > 10 then (take 10 v, 10) else (v, nbytes)) in
         case atoi (drop 1 (take nbytes v)) of
           None \<Rightarrow> None
         | Some ns \<Rightarrow> if ns < 0 then None else Some (ns * 10 ^ (10 - nbytes))))"

text \<open>
  The loop \<^verbatim>\<open>for ; n < len(value) && isDigit(value, n); n++ {}\<close>: \<open>digitRun s n\<close> is the
  final \<open>n\<close> when \<open>s\<close> is the part of the value from index \<open>n\<close> on.
\<close>

fun digitRun :: "string \<Rightarrow> nat \<Rightarrow> nat" where
  "digitRun [] n = n"
| "digitRun (c # s) n = (if isDigit [c] 0 then digitRun s (Suc n) else n)"

text \<open>A failed check ends the parse with an error, here \<open>None\<close>.\<close>

definition check :: "bool \<Rightarrow> unit option" where
  "check ok = (if ok then Some () else None)"

text \<open>
  The layout element \<^verbatim>\<open>Z07:00\<close>: either the byte \<^verbatim>\<open>Z\<close> (UTC, the first component of
  the result is \<open>None\<close>) or a sign, two digits, a colon and two digits (an offset in
  seconds). The range test lets 24 hours and 60 minutes pass, as the library does.
\<close>

definition parseZone :: "string \<Rightarrow> (int option \<times> string) option" where
  "parseZone v =
     (if length v \<ge> 1 \<and> v ! 0 = CHR ''Z'' then Some (None, drop 1 v)
      else if length v < 6 then None
      else if v ! 3 \<noteq> CHR '':'' then None
      else do {
        (hr, _) \<leftarrow> getnum (take 2 (drop 1 v)) True;
        (mm, _) \<leftarrow> getnum (take 2 (drop 4 v)) True;
        check (\<not> hr > 24);
        check (\<not> mm > 60);
        let zoneOffset = (hr * 60 + mm) * 60;
        if v ! 0 = CHR ''+'' then Some (Some zoneOffset, drop 6 v)
        else if v ! 0 = CHR ''-'' then Some (Some (- zoneOffset), drop 6 v)
        else None
      })"

text \<open>
  \<^verbatim>\<open>time.Parse(time.RFC3339, v)\<close>: \<open>Some t\<close> when the error is \<^verbatim>\<open>nil\<close>. The elements
  of the layout are read from left to right: a four-digit year, a two-digit month, a
  two-digit day, \<^verbatim>\<open>T\<close>, an hour of one or two digits, two-digit minute and second, an
  optional fraction introduced by a period or a comma, and the zone; nothing may
  follow, and the day must exist in its month.
\<close>

definition Parse_RFC3339 :: "string \<Rightarrow> Time option" where
  "Parse_RFC3339 v = do {
     check (\<not> (length v < 4 \<or> \<not> isDigit v 0));
     year \<leftarrow> atoi (take 4 v);
     let v = drop 4 v;
     v \<leftarrow> skip v (CHR ''-'');
     (month, v) \<leftarrow> getnum v True;
     check (\<not> (month \<le> 0 \<or> 12 < month));
     v \<leftarrow> skip v (CHR ''-'');
     (day, v) \<leftarrow> getnum v True;
     v \<leftarrow> skip v (CHR ''T'');
     (hour, v) \<leftarrow> getnum v False;
     check (\<not> (hour < 0 \<or> 24 \<le> hour));
     v \<leftarrow> skip v (CHR '':'');
     (minute, v) \<leftarrow> getnum v True;
     check (\<not> (minute < 0 \<or> 60 \<le> minute));
     v \<leftarrow> skip v (CHR '':'');
     (sec, v) \<leftarrow> getnum v True;
     check (\<not> (sec < 0 \<or> 60 \<le> sec));
     (nsec, v) \<leftarrow>
       (if length v \<ge> 2 \<and> commaOrPeriod (v ! 0) \<and> isDigit v 1 then
          (let n = digitRun (drop 2 v) 2 in
           do { ns \<leftarrow> parseNanoseconds v n; Some (ns, drop n v) })
        else Some (0, v));
     (z, v) \<leftarrow> parseZone v;
     check (v = []);
     check (\<not> (day < 1 \<or> day > daysIn month year));
     let t = Date year month day hour minute sec nsec;
     case z of
       None \<Rightarrow> Some t
     | Some zoneOffset \<Rightarrow> Some (t\<lparr>unixSec := unixSec t - zoneOffset, locOffset := zoneOffset\<rparr>)
   }"

subsection \<open>Phase 1: send\<close>

definition DeliverySendLabels :: "string list" where
  "DeliverySendLabels = [DeliveryLabelPending]"

subsection \<open>Phase 2: ack\<close>

definition DeliveryAckLabelSequence :: "string \<Rightarrow> Time \<Rightarrow> string list" where
  "DeliveryAckLabelSequence recipientIdentity at =
     (let ackedAt = Format_RFC3339 (UTC at) in
      [DeliveryLabelAckedByPrefix @ recipientIdentity,
       DeliveryLabelAckedAtPrefix @ ackedAt,
       DeliveryLabelAcked])"

subsection \<open>Deriving the state: ParseDeliveryLabels\<close>

text \<open>
  The local variables of the loop. \<open>ackedBy\<close> and \<open>ackedAt\<close> are the named results
  of the Go function, which start at their zero values \<^verbatim>\<open>""\<close> and \<^verbatim>\<open>nil\<close>.
  The pointer \<^verbatim>\<open>*time.Time\<close> is an option: \<open>None\<close> is \<^verbatim>\<open>nil\<close>.
\<close>

record 't scan =
  hasPending :: bool
  hasAcked :: bool
  ackedBy :: string
  ackedAt :: "'t option"

definition scan_init :: "'t scan" where
  "scan_init = \<lparr>hasPending = False, hasAcked = False, ackedBy = [], ackedAt = None\<rparr>"

text \<open>
  One iteration of the loop: the \<^verbatim>\<open>switch\<close> with its four cases, tried in the order
  of the source; a label that matches none of them changes nothing. The call
  \<^verbatim>\<open>time.Parse(time.RFC3339, ts)\<close> of the standard library is the argument \<open>parse\<close>
  (\<open>Some t\<close> when \<^verbatim>\<open>err == nil\<close>, \<open>None\<close> otherwise), so that what does not depend on
  the library is proved for every parser; \<open>Parse_RFC3339\<close> is the one the program runs.
\<close>

definition scan_label :: "(string \<Rightarrow> 't option) \<Rightarrow> 't scan \<Rightarrow> string \<Rightarrow> 't scan" where
  "scan_label parse st label =
     (if label = DeliveryLabelPending then st\<lparr>hasPending := True\<rparr>
      else if label = DeliveryLabelAcked then st\<lparr>hasAcked := True\<rparr>
      else if HasPrefix label DeliveryLabelAckedByPrefix then
        st\<lparr>ackedBy := TrimPrefix label DeliveryLabelAckedByPrefix\<rparr>
      else if HasPrefix label DeliveryLabelAckedAtPrefix then
        (let ts = TrimPrefix label DeliveryLabelAckedAtPrefix in
         case parse ts of
           Some t \<Rightarrow> st\<lparr>ackedAt := Some t\<rparr>
         | None \<Rightarrow> st)
      else st)"

fun scan_labels :: "(string \<Rightarrow> 't option) \<Rightarrow> 't scan \<Rightarrow> string list \<Rightarrow> 't scan" where
  "scan_labels parse st [] = st"
| "scan_labels parse st (label # labels) = scan_labels parse (scan_label parse st label) labels"

definition ParseDeliveryLabels ::
  "(string \<Rightarrow> 't option) \<Rightarrow> string list \<Rightarrow> string \<times> string \<times> 't option" where
  "ParseDeliveryLabels parse labels =
     (let st = scan_labels parse scan_init labels in
      if hasAcked st then (DeliveryStateAcked, ackedBy st, ackedAt st)
      else if hasPending st then (DeliveryStatePending, [], None)
      else ([], [], None))"

section \<open>Properties\<close>

subsection \<open>What the scan accumulates\<close>

lemma scan_labels_append:
  "scan_labels parse st (xs @ ys) = scan_labels parse (scan_labels parse st xs) ys"
  by (induction xs arbitrary: st) simp_all

lemma hasPending_scan_label:
  "hasPending (scan_label parse st l) = (hasPending st \<or> l = DeliveryLabelPending)"
  by (simp add: scan_label_def Let_def split: option.split)

lemma hasAcked_scan_label:
  "hasAcked (scan_label parse st l) = (hasAcked st \<or> l = DeliveryLabelAcked)"
  by (auto simp: scan_label_def Let_def DeliveryLabelPending_def DeliveryLabelAcked_def
      split: option.split)

lemma hasPending_scan_labels:
  "hasPending (scan_labels parse st ls) = (hasPending st \<or> DeliveryLabelPending \<in> set ls)"
  by (induction ls arbitrary: st) (auto simp: hasPending_scan_label)

lemma hasAcked_scan_labels:
  "hasAcked (scan_labels parse st ls) = (hasAcked st \<or> DeliveryLabelAcked \<in> set ls)"
  by (induction ls arbitrary: st) (auto simp: hasAcked_scan_label)

lemma ParseDeliveryLabels_state:
  "fst (ParseDeliveryLabels parse ls) =
     (if DeliveryLabelAcked \<in> set ls then DeliveryStateAcked
      else if DeliveryLabelPending \<in> set ls then DeliveryStatePending
      else [])"
  by (simp add: ParseDeliveryLabels_def Let_def hasPending_scan_labels hasAcked_scan_labels
      scan_init_def)

lemmas label_defs = DeliveryLabelPending_def DeliveryLabelAcked_def
  DeliveryLabelAckedByPrefix_def DeliveryLabelAckedAtPrefix_def

lemma by_prefix_not_marker:
  assumes "HasPrefix l DeliveryLabelAckedByPrefix"
  shows "l \<noteq> DeliveryLabelPending" "l \<noteq> DeliveryLabelAcked"
  using assms by (auto simp: HasPrefix_def label_defs)

lemma at_prefix_not_other:
  assumes "HasPrefix l DeliveryLabelAckedAtPrefix"
  shows "l \<noteq> DeliveryLabelPending" "l \<noteq> DeliveryLabelAcked"
    "\<not> HasPrefix l DeliveryLabelAckedByPrefix"
  using assms by (auto simp: HasPrefix_def label_defs)

lemma HasPrefix_append: "HasPrefix (p @ v) p"
  by (simp add: HasPrefix_def)

lemma TrimPrefix_append: "TrimPrefix (p @ v) p = v"
  by (simp add: TrimPrefix_def HasPrefix_def)

lemma ackedBy_scan_label:
  "ackedBy (scan_label parse st l) =
     (if HasPrefix l DeliveryLabelAckedByPrefix then TrimPrefix l DeliveryLabelAckedByPrefix
      else ackedBy st)"
  by (auto simp: scan_label_def Let_def by_prefix_not_marker split: option.split)

lemma ackedAt_scan_label:
  "ackedAt (scan_label parse st l) =
     (if HasPrefix l DeliveryLabelAckedAtPrefix then
        (case parse (TrimPrefix l DeliveryLabelAckedAtPrefix) of
           Some t \<Rightarrow> Some t
         | None \<Rightarrow> ackedAt st)
      else ackedAt st)"
  by (auto simp: scan_label_def Let_def at_prefix_not_other split: option.split)

lemma scan_label_ignored:
  assumes "l \<noteq> DeliveryLabelPending" "l \<noteq> DeliveryLabelAcked"
    "\<not> HasPrefix l DeliveryLabelAckedByPrefix"
    "HasPrefix l DeliveryLabelAckedAtPrefix \<longrightarrow> parse (TrimPrefix l DeliveryLabelAckedAtPrefix) = None"
  shows "scan_label parse st l = st"
  using assms by (auto simp: scan_label_def Let_def)

lemma scan_labels_snoc:
  "scan_labels parse st (ls @ [l]) = scan_label parse (scan_labels parse st ls) l"
  by (simp add: scan_labels_append)

lemma map_filter_snoc:
  "List.map_filter f (xs @ [x]) =
     List.map_filter f xs @ (case f x of None \<Rightarrow> [] | Some y \<Rightarrow> [y])"
  by (simp add: List.map_filter_def split: option.split)

lemma ackedBy_scan_labels:
  "ackedBy (scan_labels parse st ls) =
     (let bs = filter (\<lambda>l. HasPrefix l DeliveryLabelAckedByPrefix) ls in
      if bs = [] then ackedBy st else TrimPrefix (last bs) DeliveryLabelAckedByPrefix)"
proof (induction ls rule: rev_induct)
  case Nil
  then show ?case by simp
next
  case (snoc l ls)
  then show ?case
    by (simp add: scan_labels_snoc ackedBy_scan_label Let_def)
qed

lemma ackedAt_scan_labels:
  "ackedAt (scan_labels parse st ls) =
     (let ts = List.map_filter
                 (\<lambda>l. if HasPrefix l DeliveryLabelAckedAtPrefix
                      then parse (TrimPrefix l DeliveryLabelAckedAtPrefix) else None) ls in
      if ts = [] then ackedAt st else Some (last ts))"
proof (induction ls rule: rev_induct)
  case Nil
  then show ?case by (simp add: List.map_filter_def)
next
  case (snoc l ls)
  then show ?case
    by (simp add: scan_labels_snoc ackedAt_scan_label map_filter_snoc Let_def
        split: option.split)
qed

lemma ParseDeliveryLabels_acked:
  assumes "DeliveryLabelAcked \<in> set labels"
  shows "ParseDeliveryLabels parse labels =
           (DeliveryStateAcked,
            ackedBy (scan_labels parse scan_init labels),
            ackedAt (scan_labels parse scan_init labels))"
  using assms by (simp add: ParseDeliveryLabels_def Let_def hasAcked_scan_labels)

subsection \<open>Labels that contribute nothing\<close>

lemma scan_labels_ignored:
  assumes "scan_label parse (scan_labels parse st xs) l = scan_labels parse st xs"
  shows "scan_labels parse st (xs @ l # ys) = scan_labels parse st (xs @ ys)"
  using assms by (simp add: scan_labels_append)

lemma ParseDeliveryLabels_ignored:
  assumes "\<And>st. scan_label parse st l = st"
  shows "ParseDeliveryLabels parse (xs @ l # ys) = ParseDeliveryLabels parse (xs @ ys)"
  using assms by (simp add: ParseDeliveryLabels_def scan_labels_ignored)

lemma at_label_facts:
  "DeliveryLabelAckedAtPrefix @ v \<noteq> DeliveryLabelPending"
  "DeliveryLabelAckedAtPrefix @ v \<noteq> DeliveryLabelAcked"
  "\<not> HasPrefix (DeliveryLabelAckedAtPrefix @ v) DeliveryLabelAckedByPrefix"
  using at_prefix_not_other [OF HasPrefix_append [of DeliveryLabelAckedAtPrefix v]]
  by simp_all

lemma malformed_at_label_ignored:
  assumes "parse v = None"
  shows "ParseDeliveryLabels parse (xs @ (DeliveryLabelAckedAtPrefix @ v) # ys)
         = ParseDeliveryLabels parse (xs @ ys)"
  by (rule ParseDeliveryLabels_ignored, rule scan_label_ignored)
     (simp_all add: at_label_facts TrimPrefix_append assms)

subsection \<open>The calendar: \<open>absDate\<close> inverts \<open>daysSinceEpoch\<close>\<close>

lemma div_add_small:
  fixes a b q :: int
  assumes "0 \<le> b" "b < a"
  shows "(a * q + b) div a = q" "(a * q + b) mod a = b"
proof -
  have a: "a \<noteq> 0" using assms by auto
  have "(a * q + b) div a = q + b div a"
    using a by (simp add: add.commute mult.commute)
  also have "b div a = 0" using assms by (rule div_pos_pos_trivial)
  finally show "(a * q + b) div a = q" by simp
  show "(a * q + b) mod a = b" using assms by simp
qed

lemma daysSinceEpoch_split:
  fixes q c n4 e :: int
  assumes "0 \<le> c" "c \<le> 3" "0 \<le> n4" "n4 \<le> 24" "0 \<le> e" "e \<le> 3"
  shows "daysSinceEpoch (400 * q + 100 * c + 4 * n4 + e + 1) =
         146097 * q + 36524 * c + 1461 * n4 + 365 * e"
proof -
  define y where "y = 400 * q + 100 * c + 4 * n4 + e"
  have "y = 400 * q + (100 * c + 4 * n4 + e)" by (simp add: y_def)
  moreover have "0 \<le> 100 * c + 4 * n4 + e" "100 * c + 4 * n4 + e < 400" using assms by linarith+
  ultimately have h1: "y div 400 = q" by (simp add: div_add_small)
  have "y - 400 * q = 100 * c + (4 * n4 + e)" by (simp add: y_def)
  moreover have "0 \<le> 4 * n4 + e" "4 * n4 + e < 100" using assms by linarith+
  ultimately have h2: "(y - 400 * q) div 100 = c" by (simp add: div_add_small)
  have "y - 400 * q - 100 * c = 4 * n4 + e" by (simp add: y_def)
  then have h3: "(y - 400 * q - 100 * c) div 4 = n4" using assms by (simp add: div_add_small)
  have h4: "y - 400 * q - 100 * c - 4 * n4 = e" unfolding y_def by simp
  have "daysSinceEpoch (y + 1) = 146097 * q + 36524 * c + 1461 * n4 + 365 * e"
    unfolding daysSinceEpoch_def daysPer400Years_def daysPer100Years_def daysPer4Years_def Let_def
    by (simp add: h1 h2 h3 h4)
  then show ?thesis by (simp add: y_def)
qed
lemma mod_add_upto:
  fixes a b q :: int
  assumes "0 < b" "b \<le> a"
  shows "((a * q + b) mod a = 0) = (b = a)"
proof (cases "b = a")
  case True
  then show ?thesis by simp
next
  case False
  with assms have "b < a" by simp
  with assms have "(a * q + b) mod a = b" by simp
  with assms False show ?thesis by simp
qed

lemma isLeap_split:
  fixes q c n4 e :: int
  assumes "0 \<le> c" "c \<le> 3" "0 \<le> n4" "n4 \<le> 24" "0 \<le> e" "e \<le> 3"
  shows "isLeap (400 * q + 100 * c + 4 * n4 + e + 1) = (e = 3 \<and> (n4 \<noteq> 24 \<or> c = 3))"
proof -
  define y where "y = 400 * q + 100 * c + 4 * n4 + e + 1"
  have "y = 4 * (100 * q + 25 * c + n4) + (e + 1)" by (simp add: y_def)
  then have m4: "(y mod 4 = 0) = (e + 1 = 4)"
    using assms mod_add_upto [of "e + 1" 4 "100 * q + 25 * c + n4"] by simp
  have "y = 100 * (4 * q + c) + (4 * n4 + e + 1)" by (simp add: y_def)
  moreover have "0 < 4 * n4 + e + 1" "4 * n4 + e + 1 \<le> 100" using assms by linarith+
  ultimately have m100: "(y mod 100 = 0) = (4 * n4 + e + 1 = 100)"
    using mod_add_upto [of "4 * n4 + e + 1" 100 "4 * q + c"] by simp
  have "y = 400 * q + (100 * c + 4 * n4 + e + 1)" by (simp add: y_def)
  moreover have "0 < 100 * c + 4 * n4 + e + 1" "100 * c + 4 * n4 + e + 1 \<le> 400"
    using assms by linarith+
  ultimately have m400: "(y mod 400 = 0) = (100 * c + 4 * n4 + e + 1 = 400)"
    using mod_add_upto [of "100 * c + 4 * n4 + e + 1" 400 q] by simp
  have "isLeap y = (e = 3 \<and> (n4 \<noteq> 24 \<or> c = 3))"
    unfolding isLeap_def m4 m100 m400 using assms by auto
  then show ?thesis by (simp add: y_def)
qed
text \<open>
  The year and the day of the year that \<open>absYear\<close> returns, with the cycle counts named:
  \<open>q\<close> whole 400-year cycles, then \<open>c\<close> centuries, \<open>n4\<close> four-year cycles and \<open>e\<close> years.
\<close>

lemma absYear_split:
  fixes d :: int
  defines "q \<equiv> d div 146097"
  defines "r \<equiv> d - 146097 * q"
  defines "c \<equiv> r div 36524 - r div 36524 div 4"
  defines "r1 \<equiv> r - 36524 * c"
  defines "n4 \<equiv> r1 div 1461"
  defines "r2 \<equiv> r1 - 1461 * n4"
  defines "e \<equiv> r2 div 365 - r2 div 365 div 4"
  defines "r3 \<equiv> r2 - 365 * e"
  shows "absYear d = (400 * q + 100 * c + 4 * n4 + e + 1, r3)"
  unfolding absYear_def daysPer400Years_def daysPer100Years_def daysPer4Years_def Let_def
    q_def r_def c_def r1_def n4_def r2_def e_def r3_def
  by (rule refl)

lemma cycle_cases:
  fixes r k :: int
  assumes "0 \<le> r" "r < 4 * k + 1" "0 < k"
  defines "e \<equiv> r div k - r div k div 4"
  shows "0 \<le> e \<and> e \<le> 3 \<and> 0 \<le> r - k * e \<and> (r - k * e < k \<or> (e = 3 \<and> r - k * e = k))"
proof -
  define n where "n = r div k"
  have "k * n \<le> r" "r < k * n + k"
    unfolding n_def
    using mult_div_mod_eq [of k r] pos_mod_sign [OF assms(3), of r] pos_mod_bound [OF assms(3), of r]
    by linarith+
  moreover have "0 \<le> n" unfolding n_def using assms by (simp add: pos_imp_zdiv_nonneg_iff)
  moreover have "n \<le> 4"
  proof (rule ccontr)
    assume "\<not> n \<le> 4"
    then have "5 \<le> n" by simp
    then have "k * 5 \<le> k * n" using assms(3) by (simp add: mult_left_mono)
    with \<open>k * n \<le> r\<close> assms show False by linarith
  qed
  ultimately have "(n = 0 \<or> n = 1 \<or> n = 2 \<or> n = 3 \<or> n = 4) \<and> k * n \<le> r \<and> r < k * n + k"
    by linarith
  moreover have "e = n - n div 4" by (simp add: e_def n_def)
  ultimately show ?thesis using assms(1,2) by auto
qed
text \<open>
  The day number is the first day of the year found plus the day of the year, and the
  day of the year is below 365, or below 366 in a leap year.
\<close>

lemma absYear_correct:
  assumes "absYear d = (year, yday)"
  shows "daysSinceEpoch year + yday = d \<and> 0 \<le> yday \<and> yday < (if isLeap year then 366 else 365)"
proof -
  define q where "q = d div 146097"
  define r where "r = d - 146097 * q"
  define c where "c = r div 36524 - r div 36524 div 4"
  define r1 where "r1 = r - 36524 * c"
  define n4 where "n4 = r1 div 1461"
  define r2 where "r2 = r1 - 1461 * n4"
  define e where "e = r2 div 365 - r2 div 365 div 4"
  define r3 where "r3 = r2 - 365 * e"
  have split: "absYear d = (400 * q + 100 * c + 4 * n4 + e + 1, r3)"
    unfolding q_def r_def c_def r1_def n4_def r2_def e_def r3_def by (rule absYear_split)
  with assms have year: "year = 400 * q + 100 * c + 4 * n4 + e + 1" and yday: "yday = r3"
    by simp_all
  have r: "0 \<le> r" "r < 4 * 36524 + 1"
    unfolding r_def q_def
    using mult_div_mod_eq [of 146097 d] pos_mod_sign [of 146097 d] pos_mod_bound [of 146097 d]
    by linarith+
  from cycle_cases [OF r] have c: "0 \<le> c" "c \<le> 3" "0 \<le> r1"
      "r1 < 36524 \<or> (c = 3 \<and> r1 = 36524)"
    unfolding c_def r1_def by simp_all
  have n4r2: "r1 = 1461 * n4 + r2" "0 \<le> r2" "r2 < 1461"
    unfolding r2_def n4_def
    using mult_div_mod_eq [of 1461 r1] pos_mod_sign [of 1461 r1] pos_mod_bound [of 1461 r1]
    by linarith+
  have n4: "0 \<le> n4" "n4 \<le> 24" using n4r2 c by linarith+
  have last4: "n4 = 24 \<Longrightarrow> c \<noteq> 3 \<Longrightarrow> r2 < 1460" using n4r2 c by linarith
  have r2': "r2 < 4 * 365 + 1" using n4r2 by simp
  from cycle_cases [OF n4r2(2) r2'] have e: "0 \<le> e" "e \<le> 3" "0 \<le> r3"
      "r3 < 365 \<or> (e = 3 \<and> r3 = 365)"
    unfolding e_def r3_def by simp_all
  have dse: "daysSinceEpoch year = 146097 * q + 36524 * c + 1461 * n4 + 365 * e"
    unfolding year using c n4 e by (intro daysSinceEpoch_split)
  have leap: "isLeap year = (e = 3 \<and> (n4 \<noteq> 24 \<or> c = 3))"
    unfolding year using c n4 e by (intro isLeap_split)
  have "daysSinceEpoch year + yday = d"
    unfolding dse yday r3_def using n4r2(1) by (simp add: r1_def r_def)
  moreover have "0 \<le> yday" using e yday by simp
  moreover have "yday < (if isLeap year then 366 else 365)"
  proof (cases "r3 < 365")
    case True
    then show ?thesis by (simp add: yday)
  next
    case False
    with e have e3: "e = 3" and r3: "r3 = 365" by auto
    then have "r2 = 1460" by (simp add: r3_def)
    with last4 have "n4 \<noteq> 24 \<or> c = 3" by auto
    with e3 leap r3 show ?thesis by (simp add: yday)
  qed
  ultimately show ?thesis by simp
qed
lemma month_of_yday:
  fixes dy :: int
  assumes "0 \<le> dy" "dy < 365"
  defines "m0 \<equiv> dy div 31"
  defines "en \<equiv> daysBefore ! nat (m0 + 1)"
  defines "m \<equiv> (if dy \<ge> en then m0 + 1 else m0) + 1"
  defines "bg \<equiv> (if dy \<ge> en then en else daysBefore ! nat m0)"
  shows "1 \<le> m \<and> m \<le> 12 \<and> bg = daysBefore ! nat (m - 1) \<and> bg \<le> dy \<and> dy < daysBefore ! nat m"
proof -
  have b: "31 * m0 \<le> dy" "dy < 31 * m0 + 31"
    unfolding m0_def
    using mult_div_mod_eq [of 31 dy] pos_mod_sign [of 31 dy] pos_mod_bound [of 31 dy]
    by linarith+
  with assms(1,2) have "0 \<le> m0" "m0 \<le> 11" by linarith+
  then have "m0 = 0 \<or> m0 = 1 \<or> m0 = 2 \<or> m0 = 3 \<or> m0 = 4 \<or> m0 = 5 \<or> m0 = 6
      \<or> m0 = 7 \<or> m0 = 8 \<or> m0 = 9 \<or> m0 = 10 \<or> m0 = 11"
    by presburger
  then show ?thesis
    using b assms(1,2) unfolding m_def bg_def en_def
    by (elim disjE) (simp_all add: daysBefore_def)
qed
lemma daysBefore_March:
  fixes m :: int
  assumes "1 \<le> m" "m \<le> 12"
  shows "(m \<le> 2 \<longrightarrow> daysBefore ! nat m \<le> 59) \<and> (3 \<le> m \<longrightarrow> 59 \<le> daysBefore ! nat (m - 1))"
proof -
  from assms have "m = 1 \<or> m = 2 \<or> m = 3 \<or> m = 4 \<or> m = 5 \<or> m = 6
      \<or> m = 7 \<or> m = 8 \<or> m = 9 \<or> m = 10 \<or> m = 11 \<or> m = 12"
    by presburger
  then show ?thesis
    by (elim disjE) (simp_all add: daysBefore_def)
qed

text \<open>
  The date that \<open>absDate\<close> returns exists in the calendar, and the day count that
  \<open>Date\<close> computes from it is the day number it came from.
\<close>

lemma absDate_correct:
  assumes "absDate d = (year, month, day)"
  shows "1 \<le> month \<and> month \<le> 12 \<and> 1 \<le> day \<and> day \<le> daysIn month year \<and>
         daysSinceEpoch year + daysBefore ! nat (month - 1)
           + (if isLeap year \<and> 3 \<le> month then 1 else 0) + (day - 1) = d"
proof -
  obtain y yd where ay: "absYear d = (y, yd)" by (cases "absYear d")
  from absYear_correct [OF ay]
  have Y: "daysSinceEpoch y + yd = d" "0 \<le> yd" "yd < (if isLeap y then 366 else 365)"
    by simp_all
  show ?thesis
  proof (cases "isLeap y \<and> yd = 59")
    case True
    with assms ay have "year = y" "month = 2" "day = 29"
      by (simp_all add: absDate_def)
    with True Y show ?thesis
      by (simp add: daysIn_def daysBefore_def)
  next
    case False
    define dy where "dy = (if isLeap y \<and> yd > 59 then yd - 1 else yd)"
    define m0 where "m0 = dy div 31"
    define en where "en = daysBefore ! nat (m0 + 1)"
    define m where "m = (if dy \<ge> en then m0 + 1 else m0) + 1"
    define bg where "bg = (if dy \<ge> en then en else daysBefore ! nat m0)"
    have dy: "0 \<le> dy" "dy < 365"
      using Y False unfolding dy_def by (auto split: if_splits)
    from month_of_yday [OF dy]
    have M: "1 \<le> m" "m \<le> 12" "bg = daysBefore ! nat (m - 1)" "bg \<le> dy" "dy < daysBefore ! nat m"
      unfolding m_def bg_def en_def m0_def by simp_all
    have "absDate d = (y, m, dy - bg + 1)"
      using False
      by (cases "isLeap y")
         (simp_all add: absDate_def ay m_def bg_def en_def m0_def dy_def Let_def)
    with assms have res: "year = y" "month = m" "day = dy - bg + 1" by simp_all
    have adj: "dy + (if isLeap y \<and> 3 \<le> m then 1 else 0) = yd"
    proof (cases "isLeap y")
      case leap: True
      show ?thesis
      proof (cases "yd > 59")
        case True
        with leap have "dy = yd - 1" by (simp add: dy_def)
        with True M daysBefore_March [OF M(1,2)] have "3 \<le> m" by linarith
        with leap \<open>dy = yd - 1\<close> show ?thesis by simp
      next
        case False
        with leap \<open>\<not> (isLeap y \<and> yd = 59)\<close> have "dy = yd" "yd < 59" by (simp_all add: dy_def)
        with M daysBefore_March [OF M(1,2)] have "\<not> 3 \<le> m" by linarith
        with \<open>dy = yd\<close> show ?thesis by simp
      qed
    next
      case False
      then show ?thesis by (simp add: dy_def)
    qed
    have "day \<le> daysIn month year"
    proof (cases "m = 2 \<and> isLeap y")
      case True
      with M have "dy - bg + 1 \<le> 28" by (simp add: daysBefore_def)
      with True res show ?thesis by (simp add: daysIn_def)
    next
      case False
      with res M show ?thesis by (auto simp: daysIn_def)
    qed
    with res M Y adj show ?thesis by auto
  qed
qed

subsection \<open>Digits written and read back\<close>

lemma char_of_48: "char_of (48::nat) = CHR ''0''"
  by (simp add: char_of_def bit_iff_odd_drop_bit)

lemma of_char_digit:
  fixes a :: nat
  assumes "a < 10"
  shows "(of_char (char_of (48 + a)) :: nat) = 48 + a"
    and "(of_char (char_of (48 + a)) :: int) = 48 + int a"
proof -
  show n: "(of_char (char_of (48 + a)) :: nat) = 48 + a"
    using assms by (simp add: of_char_of)
  have "(of_char (char_of (48 + a)) :: int) = int (of_char (char_of (48 + a)))"
    by (simp only: of_nat_of_char)
  also have "\<dots> = int (48 + a)" by (simp only: n)
  finally show "(of_char (char_of (48 + a)) :: int) = 48 + int a"
    by simp
qed

lemma isDigit_digit:
  fixes a :: nat
  assumes "a < 10"
  shows "isDigit (char_of (48 + a) # s) 0"
  using assms by (simp add: isDigit_def of_char_digit)

lemma digitVal_digit:
  fixes a :: nat
  assumes "a < 10"
  shows "digitVal (char_of (48 + a)) = int a"
  using assms by (simp add: digitVal_def of_char_digit)

lemma digit_not_sign:
  fixes a :: nat
  assumes "a < 10"
  shows "char_of (48 + a) \<noteq> CHR ''-''" "char_of (48 + a) \<noteq> CHR ''+''"
proof -
  have "of_char (char_of (48 + a)) \<noteq> (of_char (CHR ''-'') :: nat)"
    using assms by (simp add: of_char_digit)
  then show "char_of (48 + a) \<noteq> CHR ''-''" by metis
  have "of_char (char_of (48 + a)) \<noteq> (of_char (CHR ''+'') :: nat)"
    using assms by (simp add: of_char_digit)
  then show "char_of (48 + a) \<noteq> CHR ''+''" by metis
qed

lemma getnum_digits:
  fixes a b :: nat
  assumes "a < 10" "b < 10"
  shows "getnum (char_of (48 + a) # char_of (48 + b) # s) fixed = Some (int a * 10 + int b, s)"
proof -
  have "isDigit (char_of (48 + a) # char_of (48 + b) # s) 1"
    using assms by (simp add: isDigit_def of_char_digit)
  with assms show ?thesis
    by (simp add: getnum_def isDigit_digit digitVal_digit)
qed

lemma atoi_digits4:
  fixes a b c d :: nat
  assumes "a < 10" "b < 10" "c < 10" "d < 10"
  shows "atoi [char_of (48 + a), char_of (48 + b), char_of (48 + c), char_of (48 + d)] =
         Some (int a * 1000 + int b * 100 + int c * 10 + int d)"
  using assms
  by (simp add: atoi_def digit_not_sign isDigit_digit digitVal_digit Let_def)

lemma digits_1: "u < 10 \<Longrightarrow> digits u = [char_of (48 + u)]"
  by (simp add: digits.simps)

lemma digits_2:
  "10 \<le> u \<Longrightarrow> u < 100 \<Longrightarrow> digits u = [char_of (48 + u div 10), char_of (48 + u mod 10)]"
  by (subst digits.simps) (simp add: digits_1)

lemma digits_3:
  "100 \<le> u \<Longrightarrow> u < 1000 \<Longrightarrow>
   digits u = [char_of (48 + u div 100), char_of (48 + u div 10 mod 10), char_of (48 + u mod 10)]"
  by (subst digits.simps) (simp add: digits_2 div_mult2_eq [symmetric])

lemma digits_4:
  "1000 \<le> u \<Longrightarrow> u < 10000 \<Longrightarrow>
   digits u = [char_of (48 + u div 1000), char_of (48 + u div 100 mod 10),
               char_of (48 + u div 10 mod 10), char_of (48 + u mod 10)]"
  by (subst digits.simps) (simp add: digits_3 div_mult2_eq [symmetric])

lemma appendInt_2:
  assumes "0 \<le> x" "x < 100"
  shows "appendInt b x 2 = b @ [char_of (48 + nat x div 10), char_of (48 + nat x mod 10)]"
proof (cases "x < 10")
  case True
  with assms show ?thesis
    by (simp add: appendInt_def digits_1 char_of_48)
next
  case False
  with assms show ?thesis
    by (simp add: appendInt_def digits_2)
qed

lemma replicate_2: "replicate 2 c = [c, c]"
  by (simp add: numeral_2_eq_2)

lemma replicate_3: "replicate 3 c = [c, c, c]"
  by (simp add: numeral_3_eq_3)

lemma appendInt_4:
  assumes "0 \<le> x" "x < 10000"
  shows "appendInt b x 4 =
         b @ [char_of (48 + nat x div 1000), char_of (48 + nat x div 100 mod 10),
              char_of (48 + nat x div 10 mod 10), char_of (48 + nat x mod 10)]"
proof -
  consider "x < 10" | "10 \<le> x" "x < 100" | "100 \<le> x" "x < 1000" | "1000 \<le> x"
    by linarith
  then show ?thesis
  proof cases
    case 1
    with assms show ?thesis
      by (simp add: appendInt_def digits_1 char_of_48 replicate_3)
  next
    case 2
    with assms show ?thesis
      by (simp add: appendInt_def digits_2 char_of_48 replicate_2)
  next
    case 3
    with assms show ?thesis
      by (simp add: appendInt_def digits_3 char_of_48)
  next
    case 4
    with assms show ?thesis
      by (simp add: appendInt_def digits_4)
  qed
qed
text \<open>
  Twenty bytes in the form \<^verbatim>\<open>2006-01-02T15:04:05Z\<close> with fields in range parse to the
  time \<open>Date\<close> builds from the fields.
\<close>

lemma Parse_canonical:
  fixes y3 y2 y1 y0 m1 m0 d1 d0 h1 h0 i1 i0 s1 s0 :: nat
  assumes dg: "y3 < 10" "y2 < 10" "y1 < 10" "y0 < 10" "m1 < 10" "m0 < 10" "d1 < 10" "d0 < 10"
      "h1 < 10" "h0 < 10" "i1 < 10" "i0 < 10" "s1 < 10" "s0 < 10"
    and month: "1 \<le> int m1 * 10 + int m0" "int m1 * 10 + int m0 \<le> 12"
    and day: "1 \<le> int d1 * 10 + int d0"
      "int d1 * 10 + int d0
         \<le> daysIn (int m1 * 10 + int m0) (int y3 * 1000 + int y2 * 100 + int y1 * 10 + int y0)"
    and clock: "int h1 * 10 + int h0 < 24" "int i1 * 10 + int i0 < 60" "int s1 * 10 + int s0 < 60"
  shows "Parse_RFC3339
           [char_of (48 + y3), char_of (48 + y2), char_of (48 + y1), char_of (48 + y0), CHR ''-'',
            char_of (48 + m1), char_of (48 + m0), CHR ''-'',
            char_of (48 + d1), char_of (48 + d0), CHR ''T'',
            char_of (48 + h1), char_of (48 + h0), CHR '':'',
            char_of (48 + i1), char_of (48 + i0), CHR '':'',
            char_of (48 + s1), char_of (48 + s0), CHR ''Z'']
         = Some (Date (int y3 * 1000 + int y2 * 100 + int y1 * 10 + int y0)
                   (int m1 * 10 + int m0) (int d1 * 10 + int d0)
                   (int h1 * 10 + int h0) (int i1 * 10 + int i0) (int s1 * 10 + int s0) 0)"
proof -
  have z: "parseZone ''Z'' = Some (None, [])"
    by (simp add: parseZone_def)
  show ?thesis
    unfolding Parse_RFC3339_def
    using dg month day clock
    by (simp add: check_def isDigit_digit atoi_digits4 skip_def getnum_digits z)
qed
lemma two_digits:
  fixes x :: int
  assumes "0 \<le> x" "x < 100"
  shows "nat x div 10 < 10" "nat x mod 10 < 10"
    "int (nat x div 10) * 10 + int (nat x mod 10) = x"
proof -
  define u where "u = nat x"
  have u: "u < 100" "x = int u" using assms by (simp_all add: u_def)
  show "nat x div 10 < 10" using u by (simp add: div_less_iff_less_mult)
  show "nat x mod 10 < 10" by simp
  have "u div 10 * 10 + u mod 10 = u" by simp
  then have "int (u div 10) * 10 + int (u mod 10) = int u" by linarith
  then show "int (nat x div 10) * 10 + int (nat x mod 10) = x"
    unfolding u(2) by simp
qed

lemma four_digits:
  fixes x :: int
  assumes "0 \<le> x" "x < 10000"
  shows "nat x div 1000 < 10" "nat x div 100 mod 10 < 10" "nat x div 10 mod 10 < 10"
    "nat x mod 10 < 10"
    "int (nat x div 1000) * 1000 + int (nat x div 100 mod 10) * 100
       + int (nat x div 10 mod 10) * 10 + int (nat x mod 10) = x"
proof -
  define u where "u = nat x"
  have u: "u < 10000" "x = int u" using assms by (simp_all add: u_def)
  show "nat x div 1000 < 10" using u by (simp add: div_less_iff_less_mult)
  show "nat x div 100 mod 10 < 10" "nat x div 10 mod 10 < 10" "nat x mod 10 < 10" by simp_all
  have a: "u = (u div 10) * 10 + u mod 10" by simp
  have b: "u div 10 = (u div 100) * 10 + u div 10 mod 10"
    using div_mult_mod_eq [of "u div 10" 10] by (simp add: div_mult2_eq [symmetric])
  have c: "u div 100 = (u div 1000) * 10 + u div 100 mod 10"
    using div_mult_mod_eq [of "u div 100" 10] by (simp add: div_mult2_eq [symmetric])
  have "u div 1000 * 1000 + u div 100 mod 10 * 100 + u div 10 mod 10 * 10 + u mod 10 = u"
    using a b c by linarith
  then have "int (u div 1000) * 1000 + int (u div 100 mod 10) * 100
       + int (u div 10 mod 10) * 10 + int (u mod 10) = int u"
    by linarith
  then show "int (nat x div 1000) * 1000 + int (nat x div 100 mod 10) * 100
       + int (nat x div 10 mod 10) * 10 + int (nat x mod 10) = x"
    unfolding u(2) by simp
qed

lemma clock_split:
  fixes a :: int
  defines "s \<equiv> a mod 86400"
  defines "hour \<equiv> s div 3600"
  defines "s' \<equiv> s - hour * 3600"
  defines "minute \<equiv> s' div 60"
  defines "sec \<equiv> s' - minute * 60"
  shows "0 \<le> hour \<and> hour < 24 \<and> 0 \<le> minute \<and> minute < 60 \<and> 0 \<le> sec \<and> sec < 60 \<and>
         (a div 86400) * 86400 + hour * 3600 + minute * 60 + sec = a"
proof -
  have s: "0 \<le> s" "s < 86400" "86400 * (a div 86400) + s = a"
    unfolding s_def using mult_div_mod_eq [of 86400 a] by simp_all
  have h: "3600 * hour \<le> s" "s < 3600 * hour + 3600"
    unfolding hour_def
    using mult_div_mod_eq [of 3600 s] pos_mod_sign [of 3600 s] pos_mod_bound [of 3600 s]
    by linarith+
  have s': "0 \<le> s'" "s' < 3600" using h by (simp_all add: s'_def)
  have m: "60 * minute \<le> s'" "s' < 60 * minute + 60"
    unfolding minute_def
    using mult_div_mod_eq [of 60 s'] pos_mod_sign [of 60 s'] pos_mod_bound [of 60 s']
    by linarith+
  show ?thesis using s h s' m unfolding sec_def s'_def by linarith
qed
lemma norm_id: "0 \<le> lo \<Longrightarrow> lo < base \<Longrightarrow> norm hi lo base = (hi, lo)"
  by (simp add: norm_def)

lemma Date_in_range:
  assumes "1 \<le> month" "month \<le> 12" "0 \<le> hour" "hour < 24" "0 \<le> minute" "minute < 60"
    "0 \<le> sec" "sec < 60"
  shows "Date year month day hour minute sec 0 =
         \<lparr>unixSec = (daysSinceEpoch year + daysBefore ! nat (month - 1)
                      + (if isLeap year \<and> 3 \<le> month then 1 else 0) + (day - 1)) * 86400
                    + (hour * 3600 + minute * 60 + sec) - 62135596800,
          nanos = 0, locOffset = 0\<rparr>"
  using assms
  by (auto simp add: Date_def norm_id secondsPerDay_def unixToInternal_def Let_def)

lemma Format_UTC_digits:
  assumes ad: "absDate ((unixSec t + unixToInternal) div 86400) = (year, month, day)"
    and s: "s = (unixSec t + unixToInternal) mod 86400"
    and hour: "hour = s div 3600"
    and minute: "minute = (s - hour * 3600) div 60"
    and sec: "sec = s - hour * 3600 - minute * 60"
    and year: "0 \<le> year" "year < 10000"
    and month: "0 \<le> month" "month < 100"
    and day: "0 \<le> day" "day < 100"
    and clock: "0 \<le> hour" "hour < 100" "0 \<le> minute" "minute < 100" "0 \<le> sec" "sec < 100"
  shows "Format_RFC3339 (UTC t) =
           [char_of (48 + nat year div 1000), char_of (48 + nat year div 100 mod 10),
            char_of (48 + nat year div 10 mod 10), char_of (48 + nat year mod 10), CHR ''-'',
            char_of (48 + nat month div 10), char_of (48 + nat month mod 10), CHR ''-'',
            char_of (48 + nat day div 10), char_of (48 + nat day mod 10), CHR ''T'',
            char_of (48 + nat hour div 10), char_of (48 + nat hour mod 10), CHR '':'',
            char_of (48 + nat minute div 10), char_of (48 + nat minute mod 10), CHR '':'',
            char_of (48 + nat sec div 10), char_of (48 + nat sec mod 10), CHR ''Z'']"
proof -
  have "Format_RFC3339 (UTC t) =
        appendInt (appendInt (appendInt (appendInt (appendInt (appendInt [] year 4 @ ''-'') month 2
          @ ''-'') day 2 @ ''T'') hour 2 @ '':'') minute 2 @ '':'') sec 2 @ ''Z''"
    unfolding Format_RFC3339_def UTC_def Let_def hour minute sec s
    by (simp add: ad secondsPerDay_def)
  also have "\<dots> = [char_of (48 + nat year div 1000), char_of (48 + nat year div 100 mod 10),
            char_of (48 + nat year div 10 mod 10), char_of (48 + nat year mod 10), CHR ''-'',
            char_of (48 + nat month div 10), char_of (48 + nat month mod 10), CHR ''-'',
            char_of (48 + nat day div 10), char_of (48 + nat day mod 10), CHR ''T'',
            char_of (48 + nat hour div 10), char_of (48 + nat hour mod 10), CHR '':'',
            char_of (48 + nat minute div 10), char_of (48 + nat minute mod 10), CHR '':'',
            char_of (48 + nat sec div 10), char_of (48 + nat sec mod 10), CHR ''Z'']"
    using year month day clock
    by (simp add: appendInt_2 appendInt_4)
  finally show ?thesis .
qed

subsection \<open>Parsing what \<open>Format\<close> wrote\<close>

lemma daysIn_le_31:
  fixes m :: int
  assumes "1 \<le> m" "m \<le> 12"
  shows "daysIn m year \<le> 31"
proof -
  from assms have "m = 1 \<or> m = 2 \<or> m = 3 \<or> m = 4 \<or> m = 5 \<or> m = 6
      \<or> m = 7 \<or> m = 8 \<or> m = 9 \<or> m = 10 \<or> m = 11 \<or> m = 12"
    by presburger
  then show ?thesis
    by (elim disjE) (simp_all add: daysIn_def daysBefore_def)
qed

text \<open>
  For a year between 0 and 9999, \<open>Format_RFC3339 (UTC t)\<close> is such a string, made of
  the calendar fields of \<open>t\<close> in UTC, and those fields give back the second of \<open>t\<close>.
\<close>

lemma Format_UTC_fields:
  assumes "0 \<le> Year (UTC t)" "Year (UTC t) \<le> 9999"
  obtains year month day hour minute sec where
    "0 \<le> year" "year < 10000" "1 \<le> month" "month \<le> 12"
    "1 \<le> day" "day \<le> daysIn month year" "day < 100"
    "0 \<le> hour" "hour < 24" "0 \<le> minute" "minute < 60" "0 \<le> sec" "sec < 60"
    "Date year month day hour minute sec 0 = \<lparr>unixSec = unixSec t, nanos = 0, locOffset = 0\<rparr>"
    "Format_RFC3339 (UTC t) =
           [char_of (48 + nat year div 1000), char_of (48 + nat year div 100 mod 10),
            char_of (48 + nat year div 10 mod 10), char_of (48 + nat year mod 10), CHR ''-'',
            char_of (48 + nat month div 10), char_of (48 + nat month mod 10), CHR ''-'',
            char_of (48 + nat day div 10), char_of (48 + nat day mod 10), CHR ''T'',
            char_of (48 + nat hour div 10), char_of (48 + nat hour mod 10), CHR '':'',
            char_of (48 + nat minute div 10), char_of (48 + nat minute mod 10), CHR '':'',
            char_of (48 + nat sec div 10), char_of (48 + nat sec mod 10), CHR ''Z'']"
proof -
  define a where "a = unixSec t + unixToInternal"
  obtain year month day where ad: "absDate (a div 86400) = (year, month, day)"
    by (cases "absDate (a div 86400)")
  from absDate_correct [OF ad]
  have cal: "1 \<le> month" "month \<le> 12" "1 \<le> day" "day \<le> daysIn month year"
    and days: "daysSinceEpoch year + daysBefore ! nat (month - 1)
           + (if isLeap year \<and> 3 \<le> month then 1 else 0) + (day - 1) = a div 86400"
    by simp_all
  have "Year (UTC t) = year"
    by (simp add: Year_def UTC_def secondsPerDay_def a_def [symmetric] ad)
  with assms have year: "0 \<le> year" "year < 10000" by simp_all
  have "daysIn month year \<le> 31"
    using cal(1,2) by (rule daysIn_le_31)
  with cal have day: "0 \<le> day" "day < 100" by linarith+
  define s where "s = a mod 86400"
  define hour where "hour = s div 3600"
  define minute where "minute = (s - hour * 3600) div 60"
  define sec where "sec = s - hour * 3600 - minute * 60"
  from clock_split [of a]
  have clock: "0 \<le> hour" "hour < 24" "0 \<le> minute" "minute < 60" "0 \<le> sec" "sec < 60"
    and total: "(a div 86400) * 86400 + hour * 3600 + minute * 60 + sec = a"
    unfolding hour_def minute_def sec_def s_def by simp_all
  have fmt: "Format_RFC3339 (UTC t) =
           [char_of (48 + nat year div 1000), char_of (48 + nat year div 100 mod 10),
            char_of (48 + nat year div 10 mod 10), char_of (48 + nat year mod 10), CHR ''-'',
            char_of (48 + nat month div 10), char_of (48 + nat month mod 10), CHR ''-'',
            char_of (48 + nat day div 10), char_of (48 + nat day mod 10), CHR ''T'',
            char_of (48 + nat hour div 10), char_of (48 + nat hour mod 10), CHR '':'',
            char_of (48 + nat minute div 10), char_of (48 + nat minute mod 10), CHR '':'',
            char_of (48 + nat sec div 10), char_of (48 + nat sec mod 10), CHR ''Z'']"
  proof (rule Format_UTC_digits)
    show "absDate ((unixSec t + unixToInternal) div 86400) = (year, month, day)"
      using ad by (simp add: a_def)
    show "s = (unixSec t + unixToInternal) mod 86400" by (simp add: s_def a_def)
    show "hour = s div 3600" by (rule hour_def)
    show "minute = (s - hour * 3600) div 60" by (rule minute_def)
    show "sec = s - hour * 3600 - minute * 60" by (rule sec_def)
  qed (use year cal day clock in simp_all)
  have "Date year month day hour minute sec 0 =
      \<lparr>unixSec = (a div 86400) * 86400 + (hour * 3600 + minute * 60 + sec) - 62135596800,
       nanos = 0, locOffset = 0\<rparr>"
    using cal clock by (simp add: Date_in_range days)
  also have "(a div 86400) * 86400 + (hour * 3600 + minute * 60 + sec) - 62135596800 = unixSec t"
    using total by (simp add: a_def unixToInternal_def)
  finally have "Date year month day hour minute sec 0
      = \<lparr>unixSec = unixSec t, nanos = 0, locOffset = 0\<rparr>" .
  with year cal day clock fmt show thesis
    by (intro that)
qed

lemma Parse_Format_UTC:
  assumes "0 \<le> Year (UTC t)" "Year (UTC t) \<le> 9999"
  shows "Parse_RFC3339 (Format_RFC3339 (UTC t)) =
         Some \<lparr>unixSec = unixSec t, nanos = 0, locOffset = 0\<rparr>"
proof -
  from assms obtain year month day hour minute sec where
    year: "0 \<le> year" "year < 10000"
    and cal: "1 \<le> month" "month \<le> 12" "1 \<le> day" "day \<le> daysIn month year"
    and day: "day < 100"
    and clock: "0 \<le> hour" "hour < 24" "0 \<le> minute" "minute < 60" "0 \<le> sec" "sec < 60"
    and date: "Date year month day hour minute sec 0
          = \<lparr>unixSec = unixSec t, nanos = 0, locOffset = 0\<rparr>"
    and fmt: "Format_RFC3339 (UTC t) =
           [char_of (48 + nat year div 1000), char_of (48 + nat year div 100 mod 10),
            char_of (48 + nat year div 10 mod 10), char_of (48 + nat year mod 10), CHR ''-'',
            char_of (48 + nat month div 10), char_of (48 + nat month mod 10), CHR ''-'',
            char_of (48 + nat day div 10), char_of (48 + nat day mod 10), CHR ''T'',
            char_of (48 + nat hour div 10), char_of (48 + nat hour mod 10), CHR '':'',
            char_of (48 + nat minute div 10), char_of (48 + nat minute mod 10), CHR '':'',
            char_of (48 + nat sec div 10), char_of (48 + nat sec mod 10), CHR ''Z'']"
    by (rule Format_UTC_fields)
  have Y: "int (nat year div 1000) * 1000 + int (nat year div 100 mod 10) * 100
       + int (nat year div 10 mod 10) * 10 + int (nat year mod 10) = year"
    using year by (intro four_digits)
  have M: "int (nat month div 10) * 10 + int (nat month mod 10) = month"
    using cal by (intro two_digits) simp_all
  have D: "int (nat day div 10) * 10 + int (nat day mod 10) = day"
    using cal day by (intro two_digits) simp_all
  have H: "int (nat hour div 10) * 10 + int (nat hour mod 10) = hour"
    using clock by (intro two_digits) simp_all
  have I: "int (nat minute div 10) * 10 + int (nat minute mod 10) = minute"
    using clock by (intro two_digits) simp_all
  have S: "int (nat sec div 10) * 10 + int (nat sec mod 10) = sec"
    using clock by (intro two_digits) simp_all
  have "Parse_RFC3339 (Format_RFC3339 (UTC t)) =
        Some (Date (int (nat year div 1000) * 1000 + int (nat year div 100 mod 10) * 100
                     + int (nat year div 10 mod 10) * 10 + int (nat year mod 10))
                (int (nat month div 10) * 10 + int (nat month mod 10))
                (int (nat day div 10) * 10 + int (nat day mod 10))
                (int (nat hour div 10) * 10 + int (nat hour mod 10))
                (int (nat minute div 10) * 10 + int (nat minute mod 10))
                (int (nat sec div 10) * 10 + int (nat sec mod 10)) 0)"
    unfolding fmt
  proof (rule Parse_canonical)
    show "nat year div 1000 < 10" "nat year div 100 mod 10 < 10" "nat year div 10 mod 10 < 10"
      "nat year mod 10 < 10"
      using year by (simp_all add: four_digits)
    show "nat month div 10 < 10" "nat month mod 10 < 10"
      using cal by (simp_all add: two_digits)
    show "nat day div 10 < 10" "nat day mod 10 < 10"
      using cal day by (simp_all add: two_digits)
    show "nat hour div 10 < 10" "nat hour mod 10 < 10"
      using clock by (simp_all add: two_digits)
    show "nat minute div 10 < 10" "nat minute mod 10 < 10"
      using clock by (simp_all add: two_digits)
    show "nat sec div 10 < 10" "nat sec mod 10 < 10"
      using clock by (simp_all add: two_digits)
    show "1 \<le> int (nat month div 10) * 10 + int (nat month mod 10)"
      "int (nat month div 10) * 10 + int (nat month mod 10) \<le> 12"
      unfolding M using cal by simp_all
    show "1 \<le> int (nat day div 10) * 10 + int (nat day mod 10)"
      unfolding D using cal by simp
    show "int (nat day div 10) * 10 + int (nat day mod 10)
         \<le> daysIn (int (nat month div 10) * 10 + int (nat month mod 10))
              (int (nat year div 1000) * 1000 + int (nat year div 100 mod 10) * 100
                + int (nat year div 10 mod 10) * 10 + int (nat year mod 10))"
      unfolding Y M D using cal by simp
    show "int (nat hour div 10) * 10 + int (nat hour mod 10) < 24"
      unfolding H using clock by simp
    show "int (nat minute div 10) * 10 + int (nat minute mod 10) < 60"
      unfolding I using clock by simp
    show "int (nat sec div 10) * 10 + int (nat sec mod 10) < 60"
      unfolding S using clock by simp
  qed
  also have "\<dots> = Some (Date year month day hour minute sec 0)"
    unfolding Y M D H I S ..
  finally show ?thesis by (simp only: date)
qed

lemma Format_UTC_shape:
  assumes "0 \<le> Year (UTC t)" "Year (UTC t) \<le> 9999"
  shows "length (Format_RFC3339 (UTC t)) = 20 \<and> Format_RFC3339 (UTC t) ! 10 = CHR ''T''
         \<and> last (Format_RFC3339 (UTC t)) = CHR ''Z''"
proof -
  from assms obtain year month day hour minute sec where
    "Format_RFC3339 (UTC t) =
           [char_of (48 + nat year div 1000), char_of (48 + nat year div 100 mod 10),
            char_of (48 + nat year div 10 mod 10), char_of (48 + nat year mod 10), CHR ''-'',
            char_of (48 + nat month div 10), char_of (48 + nat month mod 10), CHR ''-'',
            char_of (48 + nat day div 10), char_of (48 + nat day mod 10), CHR ''T'',
            char_of (48 + nat hour div 10), char_of (48 + nat hour mod 10), CHR '':'',
            char_of (48 + nat minute div 10), char_of (48 + nat minute mod 10), CHR '':'',
            char_of (48 + nat sec div 10), char_of (48 + nat sec mod 10), CHR ''Z'']"
    by (rule Format_UTC_fields)
  then show ?thesis by simp
qed

subsection \<open>How an accepted value ends\<close>

text \<open>
  A successful parse has read the zone as the last element, and nothing follows it: the
  value ends in \<^verbatim>\<open>Z\<close>, or in a sign, two digits, a colon and two digits.
\<close>

lemma getnum_fixed_digits:
  assumes "getnum [a, b] True = Some r"
  shows "isDigit [a] 0 \<and> isDigit [b] 0"
  using assms by (auto simp: getnum_def isDigit_def split: if_splits)

lemma parseZone_end:
  assumes "parseZone v = Some (z, [])"
  shows "v = ''Z'' \<or> (\<exists>sg h1 h2 m1 m2. v = [sg, h1, h2, CHR '':'', m1, m2]
            \<and> (sg = CHR ''+'' \<or> sg = CHR ''-'')
            \<and> isDigit [h1] 0 \<and> isDigit [h2] 0 \<and> isDigit [m1] 0 \<and> isDigit [m2] 0)"
proof (cases "length v \<ge> 1 \<and> v ! 0 = CHR ''Z''")
  case True
  with assms have "drop 1 v = []" by (simp add: parseZone_def)
  with True have "length v = 1" by simp
  with True have "v = ''Z''" by (cases v) simp_all
  then show ?thesis by simp
next
  case False
  with assms have len: "\<not> length v < 6" and colon: "v ! 3 = CHR '':''"
    by (auto simp: parseZone_def split: if_splits)
  from False assms len colon obtain hr mm where d: "drop 6 v = []"
    and sg: "v ! 0 = CHR ''+'' \<or> v ! 0 = CHR ''-''"
    and hr: "getnum (take 2 (drop 1 v)) True = Some hr"
    and mm: "getnum (take 2 (drop 4 v)) True = Some mm"
    by (auto simp: parseZone_def check_def bind_eq_Some_conv Let_def split: if_splits)
  from d len have "length v = 6" by simp
  then obtain sg h1 h2 c m1 m2 where v: "v = [sg, h1, h2, c, m1, m2]"
    by (auto simp: length_Suc_conv numeral_eq_Suc)
  from hr v have "isDigit [h1] 0 \<and> isDigit [h2] 0"
    by (intro getnum_fixed_digits [of h1 h2 hr]) simp
  moreover from mm v have "isDigit [m1] 0 \<and> isDigit [m2] 0"
    by (intro getnum_fixed_digits [of m1 m2 mm]) simp
  ultimately show ?thesis using v colon sg by simp
qed

lemma check_Some: "(check b = Some u) = b"
  by (simp add: check_def)

lemma skip_suffix: "skip v c = Some v' \<Longrightarrow> suffix v' v"
  by (auto simp: skip_def suffix_drop split: if_splits)

lemma getnum_suffix: "getnum v f = Some (n, v') \<Longrightarrow> suffix v' v"
  by (auto simp: getnum_def suffix_drop split: if_splits)

lemma Parse_RFC3339_zone:
  assumes "Parse_RFC3339 v = Some t"
  shows "\<exists>zs z. suffix zs v \<and> parseZone zs = Some (z, [])"
proof -
  from assms obtain v1 month v2 v3 day v4 v5 hour v6 v7 minute v8 v9 sec v10 nsec v11 z where
    s: "skip (drop 4 v) CHR ''-'' = Some v1" "getnum v1 True = Some (month, v2)"
      "skip v2 CHR ''-'' = Some v3" "getnum v3 True = Some (day, v4)"
      "skip v4 CHR ''T'' = Some v5" "getnum v5 False = Some (hour, v6)"
      "skip v6 CHR '':'' = Some v7" "getnum v7 True = Some (minute, v8)"
      "skip v8 CHR '':'' = Some v9" "getnum v9 True = Some (sec, v10)"
    and n: "(if length v10 \<ge> 2 \<and> commaOrPeriod (v10 ! 0) \<and> isDigit v10 1 then
          (let n = digitRun (drop 2 v10) 2 in
           do { ns \<leftarrow> parseNanoseconds v10 n; Some (ns, drop n v10) })
        else Some (0, v10)) = Some (nsec, v11)"
    and z: "parseZone v11 = Some (z, [])"
    unfolding Parse_RFC3339_def
    by (auto simp: bind_eq_Some_conv check_Some)
  from n have "suffix v11 v10"
    by (auto simp: Let_def bind_eq_Some_conv suffix_drop split: if_splits)
  also have "suffix v10 v9" using s by (intro getnum_suffix)
  also have "suffix v9 v8" using s by (intro skip_suffix)
  also have "suffix v8 v7" using s by (intro getnum_suffix)
  also have "suffix v7 v6" using s by (intro skip_suffix)
  also have "suffix v6 v5" using s by (intro getnum_suffix)
  also have "suffix v5 v4" using s by (intro skip_suffix)
  also have "suffix v4 v3" using s by (intro getnum_suffix)
  also have "suffix v3 v2" using s by (intro skip_suffix)
  also have "suffix v2 v1" using s by (intro getnum_suffix)
  also have "suffix v1 (drop 4 v)" using s by (intro skip_suffix)
  also have "suffix (drop 4 v) v" by (rule suffix_drop)
  finally show ?thesis using z by blast
qed

lemma Parse_RFC3339_ends:
  assumes "Parse_RFC3339 v = Some t"
  shows "(\<exists>p. v = p @ ''Z'')
         \<or> (\<exists>p sg h1 h2 m1 m2. v = p @ [sg, h1, h2, CHR '':'', m1, m2]
               \<and> (sg = CHR ''+'' \<or> sg = CHR ''-'')
               \<and> isDigit [h1] 0 \<and> isDigit [h2] 0 \<and> isDigit [m1] 0 \<and> isDigit [m2] 0)"
proof -
  from Parse_RFC3339_zone [OF assms] obtain zs z where
    "suffix zs v" "parseZone zs = Some (z, [])"
    by blast
  then obtain p where "v = p @ zs" by (auto simp: suffix_def)
  with parseZone_end [OF \<open>parseZone zs = Some (z, [])\<close>] show ?thesis by blast
qed

subsection \<open>Concrete timestamps\<close>

lemmas cal_defs = daysSinceEpoch_def daysBefore_def isLeap_def daysIn_def
  daysPer400Years_def daysPer100Years_def daysPer4Years_def

lemmas parse_defs = Parse_RFC3339_def check_def isDigit_def digitVal_def getnum_def atoi_def
  skip_def commaOrPeriod_def parseZone_def parseNanoseconds_def

lemmas scan_defs = ParseDeliveryLabels_def scan_init_def scan_label_def HasPrefix_def
  TrimPrefix_def label_defs DeliveryStatePending_def DeliveryStateAcked_def

lemma Date_2026_02_17:
  "Date 2026 2 17 12 0 0 0 = \<lparr>unixSec = 1771329600, nanos = 0, locOffset = 0\<rparr>"
  by (simp add: Date_in_range cal_defs)

lemma Date_2024_02_29:
  "Date 2024 2 29 23 59 59 0 = \<lparr>unixSec = 1709251199, nanos = 0, locOffset = 0\<rparr>"
  by (simp add: Date_in_range cal_defs)

lemma Date_10000_01_01:
  "Date 10000 1 1 0 0 0 0 = \<lparr>unixSec = 253402300800, nanos = 0, locOffset = 0\<rparr>"
  by (simp add: Date_in_range cal_defs)

lemma Parse_2026_Z:
  "Parse_RFC3339 ''2026-02-17T12:00:00Z'' =
     Some \<lparr>unixSec = 1771329600, nanos = 0, locOffset = 0\<rparr>"
  by (simp add: parse_defs cal_defs Date_2026_02_17)

lemma Parse_2026_offset:
  "Parse_RFC3339 ''2026-02-17T12:00:00+01:00'' =
     Some \<lparr>unixSec = 1771326000, nanos = 0, locOffset = 3600\<rparr>"
  by (simp add: parse_defs cal_defs Date_2026_02_17)

lemma Parse_2024_Z:
  "Parse_RFC3339 ''2024-02-29T23:59:59Z'' =
     Some \<lparr>unixSec = 1709251199, nanos = 0, locOffset = 0\<rparr>"
  by (simp add: parse_defs cal_defs Date_2024_02_29)

lemma Parse_not_a_date: "Parse_RFC3339 ''not-a-date'' = None"
  by (simp add: parse_defs)

lemma Parse_garbage: "Parse_RFC3339 ''garbage'' = None"
  by (simp add: parse_defs)

lemma Parse_tomorrow: "Parse_RFC3339 ''tomorrow'' = None"
  by (simp add: parse_defs)

lemma Parse_year_10000: "Parse_RFC3339 ''10000-01-01T00:00:00Z'' = None"
  by (simp add: parse_defs)

lemma absDate_2026_02_17: "absDate 739663 = (2026, 2, 17)"
  by code_simp

lemma absDate_10000_01_01: "absDate 3652059 = (10000, 1, 1)"
  by code_simp

lemma Format_2026:
  "Format_RFC3339 (UTC \<lparr>unixSec = 1771329600, nanos = n, locOffset = z\<rparr>) = ''2026-02-17T12:00:00Z''"
proof -
  have "Format_RFC3339 (UTC \<lparr>unixSec = 1771329600, nanos = n, locOffset = z\<rparr>) =
          [char_of (48 + nat 2026 div 1000), char_of (48 + nat 2026 div 100 mod 10),
            char_of (48 + nat 2026 div 10 mod 10), char_of (48 + nat 2026 mod 10), CHR ''-'',
            char_of (48 + nat 2 div 10), char_of (48 + nat 2 mod 10), CHR ''-'',
            char_of (48 + nat 17 div 10), char_of (48 + nat 17 mod 10), CHR ''T'',
            char_of (48 + nat 12 div 10), char_of (48 + nat 12 mod 10), CHR '':'',
            char_of (48 + nat 0 div 10), char_of (48 + nat 0 mod 10), CHR '':'',
            char_of (48 + nat 0 div 10), char_of (48 + nat 0 mod 10), CHR ''Z'']"
    by (rule Format_UTC_digits [where s = 43200])
       (simp_all add: unixToInternal_def absDate_2026_02_17)
  then show ?thesis
    by (simp add: char_of_def bit_iff_odd_drop_bit)
qed

lemma Format_10000:
  "Format_RFC3339 (UTC \<lparr>unixSec = 253402300800, nanos = n, locOffset = z\<rparr>) = ''10000-01-01T00:00:00Z''"
proof -
  have "Format_RFC3339 (UTC \<lparr>unixSec = 253402300800, nanos = n, locOffset = z\<rparr>) =
        appendInt (appendInt (appendInt (appendInt (appendInt (appendInt [] 10000 4 @ ''-'') 1 2
          @ ''-'') 1 2 @ ''T'') 0 2 @ '':'') 0 2 @ '':'') 0 2 @ ''Z''"
    unfolding Format_RFC3339_def UTC_def Let_def
    by (simp add: secondsPerDay_def unixToInternal_def absDate_10000_01_01)
  also have "\<dots> = ''10000-01-01T00:00:00Z''"
    by (simp add: appendInt_def digits.simps char_of_def bit_iff_odd_drop_bit)
  finally show ?thesis .
qed

subsection \<open>The send labels\<close>

text \<open>
  C9. \<open>DeliverySendLabels\<close> takes no input and is the one-element sequence
  \<^verbatim>\<open>["delivery:pending"]\<close>. It is a constant: it reads no state and writes none, so
  every call gives this value.
\<close>

theorem DeliverySendLabels_value:
  "DeliverySendLabels = [''delivery:pending''] \<and> length DeliverySendLabels = 1"
  by (simp add: DeliverySendLabels_def DeliveryLabelPending_def)

subsection \<open>Pending, acked, unknown\<close>

text \<open>
  C1. A label list that contains \<^verbatim>\<open>delivery:pending\<close> and does not contain
  \<^verbatim>\<open>delivery:acked\<close> derives the state \<^verbatim>\<open>pending\<close> with \<open>ackedBy\<close> empty and \<open>ackedAt\<close>
  \<^verbatim>\<open>nil\<close>, whatever other labels it holds: the metadata labels
  \<^verbatim>\<open>delivery-acked-by:\<close> and \<^verbatim>\<open>delivery-acked-at:\<close> do not flip the state, and the
  values they carried are not returned. This holds for every behaviour of the
  timestamp parser.
\<close>

theorem pending_precedence:
  assumes "''delivery:pending'' \<in> set labels"
    and "''delivery:acked'' \<notin> set labels"
  shows "ParseDeliveryLabels parse labels = (''pending'', '''', None)"
  using assms
  by (simp add: ParseDeliveryLabels_def Let_def hasPending_scan_labels hasAcked_scan_labels
      scan_init_def label_defs DeliveryStatePending_def)

theorem pending_precedence_witness:
  "''delivery:pending'' \<in> set [''delivery:pending'', ''delivery-acked-by:gastown/worker'',
                                 ''delivery-acked-at:2026-02-17T12:00:00Z'']
   \<and> ''delivery:acked'' \<notin> set [''delivery:pending'', ''delivery-acked-by:gastown/worker'',
                                  ''delivery-acked-at:2026-02-17T12:00:00Z'']
   \<and> ParseDeliveryLabels Parse_RFC3339
         [''delivery:pending'', ''delivery-acked-by:gastown/worker'',
          ''delivery-acked-at:2026-02-17T12:00:00Z'']
       = (''pending'', '''', None)"
  using pending_precedence [of "[''delivery:pending'', ''delivery-acked-by:gastown/worker'',
                                 ''delivery-acked-at:2026-02-17T12:00:00Z'']" Parse_RFC3339]
  by simp

text \<open>
  C2. Once \<^verbatim>\<open>delivery:acked\<close> is in the list the state is \<^verbatim>\<open>acked\<close>, with or without
  \<^verbatim>\<open>delivery:pending\<close>; and if a list \<open>S\<close> derives \<^verbatim>\<open>acked\<close>, so does \<open>S\<close> followed
  by any further labels \<open>T\<close>: no label takes the state back to pending or unknown.
\<close>

theorem acked_monotone:
  "(fst (ParseDeliveryLabels parse S) = ''acked''
      \<longrightarrow> fst (ParseDeliveryLabels parse (S @ T)) = ''acked'')
   \<and> (''delivery:acked'' \<in> set L \<longrightarrow> fst (ParseDeliveryLabels parse L) = ''acked'')"
  by (auto simp: ParseDeliveryLabels_state label_defs DeliveryStateAcked_def
      DeliveryStatePending_def split: if_splits)

theorem acked_monotone_witness:
  "fst (ParseDeliveryLabels Parse_RFC3339 [''delivery:pending'', ''delivery:acked'']) = ''acked''
   \<and> fst (ParseDeliveryLabels Parse_RFC3339
            ([''delivery:pending'', ''delivery:acked'']
             @ [''delivery:pending'', ''delivery-acked-at:garbage'', ''retract''])) = ''acked''
   \<and> ''delivery:acked'' \<in> set [''delivery:acked'']
   \<and> fst (ParseDeliveryLabels Parse_RFC3339 [''delivery:acked'']) = ''acked''"
proof -
  have "fst (ParseDeliveryLabels Parse_RFC3339 [''delivery:pending'', ''delivery:acked''])
        = ''acked''"
    by (simp add: scan_defs)
  with acked_monotone [of Parse_RFC3339 "[''delivery:pending'', ''delivery:acked'']"
      "[''delivery:pending'', ''delivery-acked-at:garbage'', ''retract'']" "[''delivery:acked'']"]
  show ?thesis by simp
qed

text \<open>
  C6. A label list with neither marker, the empty list included, derives the unknown
  state \<^verbatim>\<open>""\<close> with \<open>ackedBy\<close> empty and \<open>ackedAt\<close> \<^verbatim>\<open>nil\<close>, also when it holds metadata
  labels or labels the scan does not recognise.
\<close>

theorem unknown_without_markers:
  assumes "''delivery:pending'' \<notin> set labels"
    and "''delivery:acked'' \<notin> set labels"
  shows "ParseDeliveryLabels parse labels = ('''', '''', None)"
  using assms
  by (simp add: ParseDeliveryLabels_def Let_def hasPending_scan_labels hasAcked_scan_labels
      scan_init_def label_defs)

theorem unknown_without_markers_witness:
  "''delivery:pending'' \<notin> set [''delivery-acked-by:gastown/worker'',
                                  ''delivery-acked-at:2026-02-17T12:00:00Z'', ''priority:high'']
   \<and> ''delivery:acked'' \<notin> set [''delivery-acked-by:gastown/worker'',
                                  ''delivery-acked-at:2026-02-17T12:00:00Z'', ''priority:high'']
   \<and> ParseDeliveryLabels Parse_RFC3339
         [''delivery-acked-by:gastown/worker'', ''delivery-acked-at:2026-02-17T12:00:00Z'',
          ''priority:high'']
       = ('''', '''', None)
   \<and> ParseDeliveryLabels Parse_RFC3339 [] = ('''', '''', None)"
  using unknown_without_markers [of "[''delivery-acked-by:gastown/worker'',
            ''delivery-acked-at:2026-02-17T12:00:00Z'', ''priority:high'']" Parse_RFC3339]
    unknown_without_markers [of "[]" Parse_RFC3339]
  by simp

subsection \<open>Totality and malformed values\<close>

text \<open>
  C4. \<open>ParseDeliveryLabels\<close> returns a triple for every label list. The source has no
  failing operation: the loop runs once over a finite slice, \<^verbatim>\<open>strings.HasPrefix\<close> and
  \<^verbatim>\<open>strings.TrimPrefix\<close> are defined on all strings and a failed \<^verbatim>\<open>time.Parse\<close> is an
  error value that the code tests, so the model is a total function without an error
  result and the state it returns is one of \<^verbatim>\<open>""\<close>, \<^verbatim>\<open>pending\<close>, \<^verbatim>\<open>acked\<close>. A label that is
  neither marker and has neither prefix is ignored: the result is that of the list
  without it. When every \<^verbatim>\<open>delivery-acked-at:\<close> value is malformed, \<open>ackedAt\<close> is absent.
\<close>

theorem ParseDeliveryLabels_total:
  "(\<exists>state by at. ParseDeliveryLabels parse labels = (state, by, at)
       \<and> (state = '''' \<or> state = ''pending'' \<or> state = ''acked''))
   \<and> (l \<noteq> ''delivery:pending'' \<and> l \<noteq> ''delivery:acked''
        \<and> \<not> HasPrefix l ''delivery-acked-by:'' \<and> \<not> HasPrefix l ''delivery-acked-at:''
      \<longrightarrow> ParseDeliveryLabels parse (xs @ l # ys) = ParseDeliveryLabels parse (xs @ ys))
   \<and> ((\<forall>l \<in> set labels. HasPrefix l ''delivery-acked-at:''
            \<longrightarrow> parse (TrimPrefix l ''delivery-acked-at:'') = None)
      \<longrightarrow> snd (snd (ParseDeliveryLabels parse labels)) = None)"
proof (intro conjI impI)
  show "\<exists>state by at. ParseDeliveryLabels parse labels = (state, by, at)
       \<and> (state = '''' \<or> state = ''pending'' \<or> state = ''acked'')"
    by (simp add: ParseDeliveryLabels_def Let_def DeliveryStatePending_def DeliveryStateAcked_def)
next
  assume "l \<noteq> ''delivery:pending'' \<and> l \<noteq> ''delivery:acked''
        \<and> \<not> HasPrefix l ''delivery-acked-by:'' \<and> \<not> HasPrefix l ''delivery-acked-at:''"
  then have "\<And>st. scan_label parse st l = st"
    by (intro scan_label_ignored) (simp_all add: label_defs)
  then show "ParseDeliveryLabels parse (xs @ l # ys) = ParseDeliveryLabels parse (xs @ ys)"
    by (rule ParseDeliveryLabels_ignored)
next
  assume "\<forall>l \<in> set labels. HasPrefix l ''delivery-acked-at:''
            \<longrightarrow> parse (TrimPrefix l ''delivery-acked-at:'') = None"
  then have "List.map_filter
                 (\<lambda>l. if HasPrefix l DeliveryLabelAckedAtPrefix
                      then parse (TrimPrefix l DeliveryLabelAckedAtPrefix) else None) labels = []"
    by (auto simp: List.map_filter_def filter_empty_conv DeliveryLabelAckedAtPrefix_def)
  then have "ackedAt (scan_labels parse scan_init labels) = None"
    by (simp add: ackedAt_scan_labels scan_init_def)
  then show "snd (snd (ParseDeliveryLabels parse labels)) = None"
    by (simp add: ParseDeliveryLabels_def Let_def)
qed

theorem ParseDeliveryLabels_total_witness:
  "(\<exists>state by at.
       ParseDeliveryLabels Parse_RFC3339
         [''delivery:acked'', ''delivery-acked-at:not-a-date'', ''delivery-acked-at:''] = (state, by, at)
       \<and> (state = '''' \<or> state = ''pending'' \<or> state = ''acked''))
   \<and> ''priority:high'' \<noteq> ''delivery:pending'' \<and> ''priority:high'' \<noteq> ''delivery:acked''
   \<and> \<not> HasPrefix ''priority:high'' ''delivery-acked-by:''
   \<and> \<not> HasPrefix ''priority:high'' ''delivery-acked-at:''
   \<and> ParseDeliveryLabels Parse_RFC3339 ([''delivery:pending''] @ ''priority:high'' # [''delivery:acked''])
       = ParseDeliveryLabels Parse_RFC3339 ([''delivery:pending''] @ [''delivery:acked''])
   \<and> Parse_RFC3339 ''not-a-date'' = None \<and> Parse_RFC3339 '''' = None
   \<and> snd (snd (ParseDeliveryLabels Parse_RFC3339
                  [''delivery:acked'', ''delivery-acked-at:not-a-date'', ''delivery-acked-at:'']))
       = None"
proof -
  have e: "Parse_RFC3339 '''' = None"
    by (simp add: parse_defs)
  have h: "\<forall>l \<in> set [''delivery:acked'', ''delivery-acked-at:not-a-date'', ''delivery-acked-at:''].
          HasPrefix l ''delivery-acked-at:''
            \<longrightarrow> Parse_RFC3339 (TrimPrefix l ''delivery-acked-at:'') = None"
    by (simp add: HasPrefix_def TrimPrefix_def Parse_not_a_date e)
  have u: "''priority:high'' \<noteq> ''delivery:pending'' \<and> ''priority:high'' \<noteq> ''delivery:acked''
   \<and> \<not> HasPrefix ''priority:high'' ''delivery-acked-by:''
   \<and> \<not> HasPrefix ''priority:high'' ''delivery-acked-at:''"
    by (simp add: HasPrefix_def)
  from ParseDeliveryLabels_total [of Parse_RFC3339
      "[''delivery:acked'', ''delivery-acked-at:not-a-date'', ''delivery-acked-at:'']"
      "''priority:high''" "[''delivery:pending'']" "[''delivery:acked'']"] h u e Parse_not_a_date
  show ?thesis by blast
qed

text \<open>
  C5. A \<^verbatim>\<open>delivery-acked-at:\<close> label whose value the parser rejects contributes
  nothing: with it or without it the result is the same, whatever comes before and
  after it in the list. In particular the list of \<^verbatim>\<open>delivery:acked\<close> and
  \<^verbatim>\<open>delivery-acked-at:not-a-date\<close> derives \<^verbatim>\<open>acked\<close> with no timestamp, the value
  \<^verbatim>\<open>not-a-date\<close> being rejected by \<^verbatim>\<open>time.Parse\<close>.
\<close>

theorem malformed_timestamp_contributes_nothing:
  "(parse v = None
      \<longrightarrow> ParseDeliveryLabels parse (xs @ (''delivery-acked-at:'' @ v) # ys)
          = ParseDeliveryLabels parse (xs @ ys))
   \<and> Parse_RFC3339 ''not-a-date'' = None
   \<and> ParseDeliveryLabels Parse_RFC3339 [''delivery:acked'', ''delivery-acked-at:not-a-date'']
       = (''acked'', '''', None)"
proof (intro conjI impI)
  assume "parse v = None"
  from malformed_at_label_ignored [of parse v xs ys, OF this]
  show "ParseDeliveryLabels parse (xs @ (''delivery-acked-at:'' @ v) # ys)
          = ParseDeliveryLabels parse (xs @ ys)"
    by (simp add: DeliveryLabelAckedAtPrefix_def)
next
  show "Parse_RFC3339 ''not-a-date'' = None"
    by (rule Parse_not_a_date)
next
  show "ParseDeliveryLabels Parse_RFC3339 [''delivery:acked'', ''delivery-acked-at:not-a-date'']
       = (''acked'', '''', None)"
    by (simp add: scan_defs Parse_not_a_date)
qed

theorem malformed_timestamp_contributes_nothing_witness:
  "Parse_RFC3339 ''31 Feb 2026'' = None
   \<and> ParseDeliveryLabels Parse_RFC3339
         ([''delivery:pending'', ''delivery-acked-at:2026-02-17T12:00:00Z'']
          @ (''delivery-acked-at:'' @ ''31 Feb 2026'') # [''delivery:acked''])
       = ParseDeliveryLabels Parse_RFC3339
           ([''delivery:pending'', ''delivery-acked-at:2026-02-17T12:00:00Z'']
            @ [''delivery:acked''])"
proof -
  have n: "Parse_RFC3339 ''31 Feb 2026'' = None"
    by (simp add: parse_defs)
  with malformed_timestamp_contributes_nothing [of Parse_RFC3339 "''31 Feb 2026''"
      "[''delivery:pending'', ''delivery-acked-at:2026-02-17T12:00:00Z'']" "[''delivery:acked'']"]
  show ?thesis by blast
qed

subsection \<open>Which metadata value is returned\<close>

text \<open>
  C7, as the spec states it, says that among several keyed labels of one prefix the
  last one seen wins, for \<open>ackedBy\<close> and for \<open>ackedAt\<close>. For \<open>ackedAt\<close> this fails when
  the last \<^verbatim>\<open>delivery-acked-at:\<close> label is malformed: the value of an earlier label is
  returned. Here the last such label is \<^verbatim>\<open>delivery-acked-at:tomorrow\<close>, whose value does
  not parse, and \<open>ackedAt\<close> is 2024-02-29T23:59:59Z from the label before it.
\<close>

theorem last_seen_wins_counterexample:
  "last (filter (\<lambda>l. HasPrefix l ''delivery-acked-at:'')
          [''delivery:acked'', ''delivery-acked-at:2024-02-29T23:59:59Z'',
           ''delivery-acked-at:tomorrow''])
     = ''delivery-acked-at:tomorrow''
   \<and> Parse_RFC3339 ''tomorrow'' = None
   \<and> ParseDeliveryLabels Parse_RFC3339
         [''delivery:acked'', ''delivery-acked-at:2024-02-29T23:59:59Z'',
          ''delivery-acked-at:tomorrow'']
       = (''acked'', '''', Some \<lparr>unixSec = 1709251199, nanos = 0, locOffset = 0\<rparr>)"
  by (simp add: scan_defs Parse_2024_Z Parse_tomorrow)

text \<open>
  C7, amended. For a list that holds \<^verbatim>\<open>delivery:acked\<close>, duplicates of a keyed prefix
  never make the scan fail, and: \<open>ackedBy\<close> is the value of the last label with the
  prefix \<^verbatim>\<open>delivery-acked-by:\<close> (empty when there is none); \<open>ackedAt\<close> is the last
  timestamp in scan order among the \<^verbatim>\<open>delivery-acked-at:\<close> values that parse (absent when
  none does).
\<close>

theorem last_seen_wins:
  assumes "''delivery:acked'' \<in> set labels"
  shows "ParseDeliveryLabels parse labels =
           (''acked'',
            (let bs = filter (\<lambda>l. HasPrefix l ''delivery-acked-by:'') labels in
             if bs = [] then '''' else TrimPrefix (last bs) ''delivery-acked-by:''),
            (let ts = List.map_filter
                        (\<lambda>l. if HasPrefix l ''delivery-acked-at:''
                             then parse (TrimPrefix l ''delivery-acked-at:'') else None) labels in
             if ts = [] then None else Some (last ts)))"
proof -
  from assms have "DeliveryLabelAcked \<in> set labels"
    by (simp add: DeliveryLabelAcked_def)
  then have "ParseDeliveryLabels parse labels =
           (DeliveryStateAcked,
            ackedBy (scan_labels parse scan_init labels),
            ackedAt (scan_labels parse scan_init labels))"
    by (rule ParseDeliveryLabels_acked)
  then show ?thesis
    unfolding ackedBy_scan_labels ackedAt_scan_labels scan_init_def
      DeliveryStateAcked_def DeliveryLabelAckedByPrefix_def DeliveryLabelAckedAtPrefix_def
    by (simp add: Let_def)
qed

theorem last_seen_wins_witness:
  "''delivery:acked'' \<in> set [''delivery:pending'', ''delivery-acked-by:gastown/worker'',
         ''delivery-acked-at:2024-02-29T23:59:59Z'', ''delivery-acked-by:gastown/witness'',
         ''delivery-acked-at:2026-02-17T12:00:00Z'', ''delivery:acked'']
   \<and> ParseDeliveryLabels Parse_RFC3339
        [''delivery:pending'', ''delivery-acked-by:gastown/worker'',
         ''delivery-acked-at:2024-02-29T23:59:59Z'', ''delivery-acked-by:gastown/witness'',
         ''delivery-acked-at:2026-02-17T12:00:00Z'', ''delivery:acked'']
      = (''acked'', ''gastown/witness'',
         Some \<lparr>unixSec = 1771329600, nanos = 0, locOffset = 0\<rparr>)"
  using last_seen_wins [of "[''delivery:pending'', ''delivery-acked-by:gastown/worker'',
         ''delivery-acked-at:2024-02-29T23:59:59Z'', ''delivery-acked-by:gastown/witness'',
         ''delivery-acked-at:2026-02-17T12:00:00Z'', ''delivery:acked'']" Parse_RFC3339]
  by (simp add: HasPrefix_def TrimPrefix_def List.map_filter_def Parse_2024_Z Parse_2026_Z)

text \<open>
  C10. A malformed \<^verbatim>\<open>delivery-acked-at:\<close> label after a well-formed one neither
  overwrites nor clears the earlier value: in a list with \<^verbatim>\<open>delivery:acked\<close>, if a
  \<^verbatim>\<open>delivery-acked-at:\<close> value parses to \<open>t\<close> and every \<^verbatim>\<open>delivery-acked-at:\<close> value after
  it fails to parse, \<open>ackedAt\<close> is \<open>t\<close>. The example of the claim: after
  2026-02-17T12:00:00Z, the value \<^verbatim>\<open>garbage\<close> leaves \<open>ackedAt\<close> at 2026-02-17T12:00:00Z.
\<close>

theorem last_parsed_timestamp_kept:
  "(''delivery:acked'' \<in> set (xs @ (''delivery-acked-at:'' @ v) # ys)
      \<and> parse v = Some t
      \<and> (\<forall>l \<in> set ys. HasPrefix l ''delivery-acked-at:''
             \<longrightarrow> parse (TrimPrefix l ''delivery-acked-at:'') = None)
    \<longrightarrow> snd (snd (ParseDeliveryLabels parse (xs @ (''delivery-acked-at:'' @ v) # ys))) = Some t)
   \<and> Parse_RFC3339 ''garbage'' = None
   \<and> ParseDeliveryLabels Parse_RFC3339
        [''delivery:acked'', ''delivery-acked-at:2026-02-17T12:00:00Z'',
         ''delivery-acked-at:garbage'']
      = (''acked'', '''', Some (Date 2026 2 17 12 0 0 0))"
proof (intro conjI impI)
  let ?f = "\<lambda>l. if HasPrefix l DeliveryLabelAckedAtPrefix
                 then parse (TrimPrefix l DeliveryLabelAckedAtPrefix) else None"
  assume a: "''delivery:acked'' \<in> set (xs @ (''delivery-acked-at:'' @ v) # ys)
      \<and> parse v = Some t
      \<and> (\<forall>l \<in> set ys. HasPrefix l ''delivery-acked-at:''
             \<longrightarrow> parse (TrimPrefix l ''delivery-acked-at:'') = None)"
  then have "List.map_filter ?f ys = []"
    by (auto simp: List.map_filter_def filter_empty_conv DeliveryLabelAckedAtPrefix_def)
  moreover have "?f (DeliveryLabelAckedAtPrefix @ v) = Some t"
    using a by (simp add: HasPrefix_append TrimPrefix_append)
  ultimately have "List.map_filter ?f (xs @ (DeliveryLabelAckedAtPrefix @ v) # ys)
      = List.map_filter ?f xs @ [t]"
    by (simp add: List.map_filter_def)
  then have "ackedAt (scan_labels parse scan_init (xs @ (DeliveryLabelAckedAtPrefix @ v) # ys))
      = Some t"
    by (simp add: ackedAt_scan_labels)
  moreover from a have "DeliveryLabelAcked \<in> set (xs @ (DeliveryLabelAckedAtPrefix @ v) # ys)"
    by (simp add: label_defs)
  ultimately have
    "snd (snd (ParseDeliveryLabels parse (xs @ (DeliveryLabelAckedAtPrefix @ v) # ys))) = Some t"
    by (simp add: ParseDeliveryLabels_acked)
  then show "snd (snd (ParseDeliveryLabels parse (xs @ (''delivery-acked-at:'' @ v) # ys))) = Some t"
    by (simp add: DeliveryLabelAckedAtPrefix_def)
next
  show "Parse_RFC3339 ''garbage'' = None"
    by (rule Parse_garbage)
next
  show "ParseDeliveryLabels Parse_RFC3339
        [''delivery:acked'', ''delivery-acked-at:2026-02-17T12:00:00Z'',
         ''delivery-acked-at:garbage'']
      = (''acked'', '''', Some (Date 2026 2 17 12 0 0 0))"
    by (simp add: scan_defs Parse_2026_Z Parse_garbage Date_2026_02_17)
qed

theorem last_parsed_timestamp_kept_witness:
  "''delivery:acked'' \<in> set ([''delivery:acked'']
       @ (''delivery-acked-at:'' @ ''2024-02-29T23:59:59Z'')
         # [''delivery-acked-by:gastown/worker'', ''delivery-acked-at:2026-02-30T12:00:00Z''])
   \<and> Parse_RFC3339 ''2024-02-29T23:59:59Z''
       = Some \<lparr>unixSec = 1709251199, nanos = 0, locOffset = 0\<rparr>
   \<and> Parse_RFC3339 ''2026-02-30T12:00:00Z'' = None
   \<and> snd (snd (ParseDeliveryLabels Parse_RFC3339 ([''delivery:acked'']
       @ (''delivery-acked-at:'' @ ''2024-02-29T23:59:59Z'')
         # [''delivery-acked-by:gastown/worker'', ''delivery-acked-at:2026-02-30T12:00:00Z''])))
       = Some \<lparr>unixSec = 1709251199, nanos = 0, locOffset = 0\<rparr>"
proof -
  have n: "Parse_RFC3339 ''2026-02-30T12:00:00Z'' = None"
    by (simp add: parse_defs cal_defs)
  have h: "\<forall>l \<in> set [''delivery-acked-by:gastown/worker'', ''delivery-acked-at:2026-02-30T12:00:00Z''].
          HasPrefix l ''delivery-acked-at:''
            \<longrightarrow> Parse_RFC3339 (TrimPrefix l ''delivery-acked-at:'') = None"
    by (simp add: HasPrefix_def TrimPrefix_def n)
  have m: "''delivery:acked'' \<in> set ([''delivery:acked'']
       @ (''delivery-acked-at:'' @ ''2024-02-29T23:59:59Z'')
         # [''delivery-acked-by:gastown/worker'', ''delivery-acked-at:2026-02-30T12:00:00Z''])"
    by simp
  from last_parsed_timestamp_kept [of "[''delivery:acked'']" "''2024-02-29T23:59:59Z''"
      "[''delivery-acked-by:gastown/worker'', ''delivery-acked-at:2026-02-30T12:00:00Z'']"
      Parse_RFC3339 "\<lparr>unixSec = 1709251199, nanos = 0, locOffset = 0\<rparr>"]
    h m n Parse_2024_Z
  show ?thesis by blast
qed

subsection \<open>The ack sequence and its timestamp\<close>

text \<open>
  C3, as the spec states it, promises for every timestamp that the timestamp label,
  parsed again, gives the time back. \<^verbatim>\<open>Format\<close> writes a year above 9999 with five
  digits, which \<^verbatim>\<open>time.Parse\<close> rejects under the same layout: for
  \<^verbatim>\<open>time.Date(10000, 1, 1, 0, 0, 0, 0, time.UTC)\<close> the second label is
  \<^verbatim>\<open>delivery-acked-at:10000-01-01T00:00:00Z\<close> and its value does not parse.
\<close>

theorem ack_sequence_counterexample:
  "DeliveryAckLabelSequence ''gastown/worker'' (Date 10000 1 1 0 0 0 0)
     = [''delivery-acked-by:gastown/worker'', ''delivery-acked-at:10000-01-01T00:00:00Z'',
        ''delivery:acked'']
   \<and> Parse_RFC3339 ''10000-01-01T00:00:00Z'' = None"
  by (simp add: DeliveryAckLabelSequence_def Date_10000_01_01 Format_10000 Parse_year_10000
      label_defs)

text \<open>
  C3, amended. For every recipient \<open>r\<close> and every time \<open>t\<close> the sequence has exactly
  three elements, in this order: \<^verbatim>\<open>delivery-acked-by:\<close> followed by \<open>r\<close>,
  \<^verbatim>\<open>delivery-acked-at:\<close> followed by \<open>t\<close> in UTC formatted with the layout RFC 3339, and
  \<^verbatim>\<open>delivery:acked\<close>. When the year of \<open>t\<close> in UTC lies between 0 and 9999, the value of
  the second label parses, and the result is \<open>t\<close> in UTC with the nanoseconds dropped;
  the value then has the twenty bytes of \<^verbatim>\<open>2006-01-02T15:04:05Z\<close>, ending in \<^verbatim>\<open>Z\<close>.
  For the recipient \<^verbatim>\<open>gastown/worker\<close> and 2026-02-17T12:00:00Z the sequence is the one
  the spec gives.
\<close>

theorem ack_sequence:
  "DeliveryAckLabelSequence r t
     = [''delivery-acked-by:'' @ r, ''delivery-acked-at:'' @ Format_RFC3339 (UTC t),
        ''delivery:acked'']
   \<and> length (DeliveryAckLabelSequence r t) = 3
   \<and> DeliveryAckLabelSequence r t ! 2 = ''delivery:acked''
   \<and> (0 \<le> Year (UTC t) \<and> Year (UTC t) \<le> 9999
        \<longrightarrow> Parse_RFC3339 (TrimPrefix (DeliveryAckLabelSequence r t ! 1) ''delivery-acked-at:'')
            = Some \<lparr>unixSec = unixSec t, nanos = 0, locOffset = 0\<rparr>
          \<and> length (Format_RFC3339 (UTC t)) = 20
          \<and> last (Format_RFC3339 (UTC t)) = CHR ''Z'')
   \<and> DeliveryAckLabelSequence ''gastown/worker'' (Date 2026 2 17 12 0 0 0)
       = [''delivery-acked-by:gastown/worker'', ''delivery-acked-at:2026-02-17T12:00:00Z'',
          ''delivery:acked'']"
proof (intro conjI impI)
  show seq: "DeliveryAckLabelSequence r t
     = [''delivery-acked-by:'' @ r, ''delivery-acked-at:'' @ Format_RFC3339 (UTC t),
        ''delivery:acked'']"
    by (simp add: DeliveryAckLabelSequence_def label_defs)
  show "length (DeliveryAckLabelSequence r t) = 3"
    by (simp add: DeliveryAckLabelSequence_def)
  show "DeliveryAckLabelSequence r t ! 2 = ''delivery:acked''"
    by (simp add: DeliveryAckLabelSequence_def label_defs)
  show "DeliveryAckLabelSequence ''gastown/worker'' (Date 2026 2 17 12 0 0 0)
       = [''delivery-acked-by:gastown/worker'', ''delivery-acked-at:2026-02-17T12:00:00Z'',
          ''delivery:acked'']"
    by (simp add: DeliveryAckLabelSequence_def Date_2026_02_17 Format_2026 label_defs)
  assume y: "0 \<le> Year (UTC t) \<and> Year (UTC t) \<le> 9999"
  then show "length (Format_RFC3339 (UTC t)) = 20" "last (Format_RFC3339 (UTC t)) = CHR ''Z''"
    by (simp_all add: Format_UTC_shape)
  from y have "Parse_RFC3339 (Format_RFC3339 (UTC t))
      = Some \<lparr>unixSec = unixSec t, nanos = 0, locOffset = 0\<rparr>"
    by (simp add: Parse_Format_UTC)
  moreover have "TrimPrefix (DeliveryAckLabelSequence r t ! 1) ''delivery-acked-at:''
      = Format_RFC3339 (UTC t)"
    using TrimPrefix_append [of "''delivery-acked-at:''" "Format_RFC3339 (UTC t)"]
    by (simp add: DeliveryAckLabelSequence_def label_defs)
  ultimately show "Parse_RFC3339 (TrimPrefix (DeliveryAckLabelSequence r t ! 1) ''delivery-acked-at:'')
            = Some \<lparr>unixSec = unixSec t, nanos = 0, locOffset = 0\<rparr>"
    by simp
qed

theorem ack_sequence_witness:
  "0 \<le> Year (UTC \<lparr>unixSec = 1771329600, nanos = 123456789, locOffset = 3600\<rparr>)
   \<and> Year (UTC \<lparr>unixSec = 1771329600, nanos = 123456789, locOffset = 3600\<rparr>) \<le> 9999
   \<and> DeliveryAckLabelSequence ''gastown/worker''
         \<lparr>unixSec = 1771329600, nanos = 123456789, locOffset = 3600\<rparr> ! 1
       = ''delivery-acked-at:2026-02-17T12:00:00Z''
   \<and> Parse_RFC3339
         (TrimPrefix
            (DeliveryAckLabelSequence ''gastown/worker''
               \<lparr>unixSec = 1771329600, nanos = 123456789, locOffset = 3600\<rparr> ! 1)
            ''delivery-acked-at:'')
       = Some \<lparr>unixSec = 1771329600, nanos = 0, locOffset = 0\<rparr>"
proof -
  have y: "Year (UTC \<lparr>unixSec = 1771329600, nanos = 123456789, locOffset = 3600\<rparr>) = 2026"
    by (simp add: Year_def UTC_def unixToInternal_def secondsPerDay_def absDate_2026_02_17)
  have r: "0 \<le> Year (UTC \<lparr>unixSec = 1771329600, nanos = 123456789, locOffset = 3600\<rparr>)
   \<and> Year (UTC \<lparr>unixSec = 1771329600, nanos = 123456789, locOffset = 3600\<rparr>) \<le> 9999"
    by (simp add: y)
  have s: "DeliveryAckLabelSequence ''gastown/worker''
         \<lparr>unixSec = 1771329600, nanos = 123456789, locOffset = 3600\<rparr> ! 1
       = ''delivery-acked-at:2026-02-17T12:00:00Z''"
    by (simp add: DeliveryAckLabelSequence_def Format_2026 label_defs)
  from ack_sequence [of "''gastown/worker''"
      "\<lparr>unixSec = 1771329600, nanos = 123456789, locOffset = 3600\<rparr>"] r
  have "Parse_RFC3339
         (TrimPrefix
            (DeliveryAckLabelSequence ''gastown/worker''
               \<lparr>unixSec = 1771329600, nanos = 123456789, locOffset = 3600\<rparr> ! 1)
            ''delivery-acked-at:'')
       = Some \<lparr>unixSec = unixSec \<lparr>unixSec = 1771329600, nanos = 123456789, locOffset = 3600\<rparr>,
               nanos = 0, locOffset = 0\<rparr>"
    by blast
  then have "Parse_RFC3339
         (TrimPrefix
            (DeliveryAckLabelSequence ''gastown/worker''
               \<lparr>unixSec = 1771329600, nanos = 123456789, locOffset = 3600\<rparr> ! 1)
            ''delivery-acked-at:'')
       = Some \<lparr>unixSec = 1771329600, nanos = 0, locOffset = 0\<rparr>"
    by (simp only: Time.simps)
  with r s show ?thesis by blast
qed

subsection \<open>Which timestamp values are accepted\<close>

text \<open>
  C8, as the spec states it, says that only a UTC value with a trailing \<^verbatim>\<open>Z\<close> populates
  \<open>ackedAt\<close>. The layout \<^verbatim>\<open>time.RFC3339\<close> that the code parses with also accepts a numeric
  offset: the value \<^verbatim>\<open>2026-02-17T12:00:00+01:00\<close> does not end in \<^verbatim>\<open>Z\<close> and populates
  \<open>ackedAt\<close> with the instant 11:00:00 UTC, kept with its offset of 3600 seconds.
\<close>

theorem only_utc_z_accepted_counterexample:
  "last ''2026-02-17T12:00:00+01:00'' \<noteq> CHR ''Z''
   \<and> ParseDeliveryLabels Parse_RFC3339
         [''delivery:acked'', ''delivery-acked-at:2026-02-17T12:00:00+01:00'']
       = (''acked'', '''', Some \<lparr>unixSec = 1771326000, nanos = 0, locOffset = 3600\<rparr>)"
  by (simp add: scan_defs Parse_2026_offset)

text \<open>
  C8, amended. \<open>ackedAt\<close> is populated only when \<^verbatim>\<open>delivery:acked\<close> is in the list, and
  only from a \<^verbatim>\<open>delivery-acked-at:\<close> label whose value \<^verbatim>\<open>time.Parse\<close> accepts under the
  layout \<^verbatim>\<open>time.RFC3339\<close>; the value returned is what that label parsed to. Every value
  the layout accepts ends in \<^verbatim>\<open>Z\<close> or in a numeric offset \<^verbatim>\<open>+hh:mm\<close> or \<^verbatim>\<open>-hh:mm\<close> (a sign,
  two digits, a colon, two digits), and values of both kinds are accepted.
\<close>

theorem ackedAt_only_from_parsed_label:
  "(snd (snd (ParseDeliveryLabels parse labels)) = Some t
      \<longrightarrow> ''delivery:acked'' \<in> set labels
          \<and> (\<exists>l. l \<in> set labels \<and> HasPrefix l ''delivery-acked-at:''
                 \<and> parse (TrimPrefix l ''delivery-acked-at:'') = Some t))
   \<and> (Parse_RFC3339 v = Some u
        \<longrightarrow> (\<exists>p. v = p @ ''Z'')
            \<or> (\<exists>p sg h1 h2 m1 m2. v = p @ [sg, h1, h2, CHR '':'', m1, m2]
                  \<and> (sg = CHR ''+'' \<or> sg = CHR ''-'')
                  \<and> isDigit [h1] 0 \<and> isDigit [h2] 0 \<and> isDigit [m1] 0 \<and> isDigit [m2] 0))
   \<and> Parse_RFC3339 ''2026-02-17T12:00:00Z''
       = Some \<lparr>unixSec = 1771329600, nanos = 0, locOffset = 0\<rparr>
   \<and> Parse_RFC3339 ''2026-02-17T12:00:00+01:00''
       = Some \<lparr>unixSec = 1771326000, nanos = 0, locOffset = 3600\<rparr>
   \<and> Parse_RFC3339 ''2026-02-17T12:00:00-01:30''
       = Some \<lparr>unixSec = 1771335000, nanos = 0, locOffset = - 5400\<rparr>"
proof (intro conjI impI)
  let ?f = "\<lambda>l. if HasPrefix l DeliveryLabelAckedAtPrefix
                 then parse (TrimPrefix l DeliveryLabelAckedAtPrefix) else None"
  assume a: "snd (snd (ParseDeliveryLabels parse labels)) = Some t"
  then have acked: "hasAcked (scan_labels parse scan_init labels)"
    by (auto simp: ParseDeliveryLabels_def Let_def split: if_splits)
  then show "''delivery:acked'' \<in> set labels"
    by (simp add: hasAcked_scan_labels scan_init_def DeliveryLabelAcked_def)
  from a acked have "ackedAt (scan_labels parse scan_init labels) = Some t"
    by (simp add: ParseDeliveryLabels_def Let_def)
  then have ne: "List.map_filter ?f labels \<noteq> []" and t: "t = last (List.map_filter ?f labels)"
    by (auto simp: ackedAt_scan_labels scan_init_def Let_def split: if_splits)
  then have "t \<in> set (List.map_filter ?f labels)"
    by simp
  then obtain l where "l \<in> set labels" "?f l = Some t"
    by (auto simp: List.map_filter_def)
  then have "l \<in> set labels \<and> HasPrefix l ''delivery-acked-at:''
                 \<and> parse (TrimPrefix l ''delivery-acked-at:'') = Some t"
    by (auto simp: DeliveryLabelAckedAtPrefix_def split: if_splits)
  then show "\<exists>l. l \<in> set labels \<and> HasPrefix l ''delivery-acked-at:''
                 \<and> parse (TrimPrefix l ''delivery-acked-at:'') = Some t"
    by blast
next
  assume "Parse_RFC3339 v = Some u"
  then show "(\<exists>p. v = p @ ''Z'')
            \<or> (\<exists>p sg h1 h2 m1 m2. v = p @ [sg, h1, h2, CHR '':'', m1, m2]
                  \<and> (sg = CHR ''+'' \<or> sg = CHR ''-'')
                  \<and> isDigit [h1] 0 \<and> isDigit [h2] 0 \<and> isDigit [m1] 0 \<and> isDigit [m2] 0)"
    by (rule Parse_RFC3339_ends)
next
  show "Parse_RFC3339 ''2026-02-17T12:00:00Z''
       = Some \<lparr>unixSec = 1771329600, nanos = 0, locOffset = 0\<rparr>"
    by (rule Parse_2026_Z)
  show "Parse_RFC3339 ''2026-02-17T12:00:00+01:00''
       = Some \<lparr>unixSec = 1771326000, nanos = 0, locOffset = 3600\<rparr>"
    by (rule Parse_2026_offset)
  show "Parse_RFC3339 ''2026-02-17T12:00:00-01:30''
       = Some \<lparr>unixSec = 1771335000, nanos = 0, locOffset = - 5400\<rparr>"
    by (simp add: parse_defs cal_defs Date_2026_02_17)
qed

theorem ackedAt_only_from_parsed_label_witness:
  "snd (snd (ParseDeliveryLabels Parse_RFC3339
               [''delivery-acked-at:2024-02-29T23:59:59Z'', ''delivery:acked'',
                ''delivery-acked-at:yesterday'']))
     = Some \<lparr>unixSec = 1709251199, nanos = 0, locOffset = 0\<rparr>
   \<and> ''delivery:acked'' \<in> set [''delivery-acked-at:2024-02-29T23:59:59Z'', ''delivery:acked'',
                                 ''delivery-acked-at:yesterday'']
   \<and> (\<exists>l. l \<in> set [''delivery-acked-at:2024-02-29T23:59:59Z'', ''delivery:acked'',
                      ''delivery-acked-at:yesterday'']
          \<and> HasPrefix l ''delivery-acked-at:''
          \<and> Parse_RFC3339 (TrimPrefix l ''delivery-acked-at:'')
              = Some \<lparr>unixSec = 1709251199, nanos = 0, locOffset = 0\<rparr>)
   \<and> Parse_RFC3339 ''2026-02-17T12:00:00+01:00''
       = Some \<lparr>unixSec = 1771326000, nanos = 0, locOffset = 3600\<rparr>
   \<and> ((\<exists>p. ''2026-02-17T12:00:00+01:00'' = p @ ''Z'')
        \<or> (\<exists>p sg h1 h2 m1 m2.
              ''2026-02-17T12:00:00+01:00'' = p @ [sg, h1, h2, CHR '':'', m1, m2]
              \<and> (sg = CHR ''+'' \<or> sg = CHR ''-'')
              \<and> isDigit [h1] 0 \<and> isDigit [h2] 0 \<and> isDigit [m1] 0 \<and> isDigit [m2] 0))"
proof -
  have n: "Parse_RFC3339 ''yesterday'' = None"
    by (simp add: parse_defs)
  have "snd (snd (ParseDeliveryLabels Parse_RFC3339
               [''delivery-acked-at:2024-02-29T23:59:59Z'', ''delivery:acked'',
                ''delivery-acked-at:yesterday'']))
     = Some \<lparr>unixSec = 1709251199, nanos = 0, locOffset = 0\<rparr>"
    by (simp add: scan_defs Parse_2024_Z n)
  with ackedAt_only_from_parsed_label [of Parse_RFC3339
      "[''delivery-acked-at:2024-02-29T23:59:59Z'', ''delivery:acked'',
        ''delivery-acked-at:yesterday'']"
      "\<lparr>unixSec = 1709251199, nanos = 0, locOffset = 0\<rparr>"
      "''2026-02-17T12:00:00+01:00''" "\<lparr>unixSec = 1771326000, nanos = 0, locOffset = 3600\<rparr>"]
    Parse_2026_offset
  show ?thesis by blast
qed

end
